theory Spec2Isabelle
  imports Complex_Main
begin

section \<open>Numbers, vectors and rotations\<close>

text \<open>
  The simulation computes with IEEE doubles. They are modelled by the reals, so rounding,
  overflow and signed zeros are outside the model. The one place where the source relies
  on non-finite values is the division in \<^verbatim>\<open>Zone.constraint\<close>, which runs under
  \<^verbatim>\<open>np.errstate(divide='ignore')\<close>: a division by a zero component gives an
  infinity or a NaN instead of raising. Those results are the type \<open>npfloat\<close>.
\<close>

datatype npfloat = Fin real | PInf | NInf | NaN

datatype error = ValueError | IndexError | NotANumber

text \<open>
  \<open>ValueError\<close> is raised by \<^verbatim>\<open>min\<close> on an empty sequence, \<open>IndexError\<close> by
  \<^verbatim>\<open>rewards[i]\<close> out of range. \<open>NotANumber\<close> is no exception of the source: it
  marks a run whose acceleration is NaN, after which speed, odometer and position are NaN
  and leave the real-number model (\<open>move_never_nan\<close> shows that a constructed vehicle
  never gets there).
\<close>

text \<open>
  Modelled from the spec: \<^verbatim>\<open>environ.utils.Vector3\<close> is not among the source files.
  The spec gives it as an immutable value of three scalar components with componentwise
  addition and subtraction, scalar multiplication and the Euclidean norm as
  \<^verbatim>\<open>magnitude\<close>; \<^verbatim>\<open>t\<close> lists the three components in the order x, y, z.
\<close>

datatype Vector3 = Vector3 (vec_x: real) (vec_y: real) (vec_z: real)

definition vec_t :: "Vector3 \<Rightarrow> real list" where
  "vec_t u = [vec_x u, vec_y u, vec_z u]"

definition vadd :: "Vector3 \<Rightarrow> Vector3 \<Rightarrow> Vector3" where
  "vadd u w = Vector3 (vec_x u + vec_x w) (vec_y u + vec_y w) (vec_z u + vec_z w)"

definition vsub :: "Vector3 \<Rightarrow> Vector3 \<Rightarrow> Vector3" where
  "vsub u w = Vector3 (vec_x u - vec_x w) (vec_y u - vec_y w) (vec_z u - vec_z w)"

definition vscale :: "Vector3 \<Rightarrow> real \<Rightarrow> Vector3" where
  "vscale u k = Vector3 (vec_x u * k) (vec_y u * k) (vec_z u * k)"

definition magnitude :: "Vector3 \<Rightarrow> real" where
  "magnitude u = sqrt ((vec_x u)\<^sup>2 + (vec_y u)\<^sup>2 + (vec_z u)\<^sup>2)"

text \<open>A 3x3 matrix is its three rows; \<open>vec_mat d m\<close> is the row vector \<open>d\<close> times \<open>m\<close>.\<close>

type_synonym mat3 = "Vector3 \<times> Vector3 \<times> Vector3"

definition vec_mat :: "Vector3 \<Rightarrow> mat3 \<Rightarrow> Vector3" where
  "vec_mat d m = (case m of (r1, r2, r3) \<Rightarrow>
     vadd (vadd (vscale r1 (vec_x d)) (vscale r2 (vec_y d))) (vscale r3 (vec_z d)))"

definition mat_mul :: "mat3 \<Rightarrow> mat3 \<Rightarrow> mat3" where
  "mat_mul m n = (case m of (r1, r2, r3) \<Rightarrow> (vec_mat r1 n, vec_mat r2 n, vec_mat r3 n))"

definition spinner :: "real \<Rightarrow> real \<Rightarrow> real \<Rightarrow> mat3" where
  "spinner alpha beta gamma =
     (let x = (Vector3 1 0 0,
               Vector3 0 (cos alpha) (- sin alpha),
               Vector3 0 (sin alpha) (cos alpha));
          y = (Vector3 (cos beta) 0 (sin beta),
               Vector3 0 1 0,
               Vector3 (- sin beta) 0 (cos beta));
          z = (Vector3 (cos gamma) (- sin gamma) 0,
               Vector3 (sin gamma) (cos gamma) 0,
               Vector3 0 0 1)
      in mat_mul (mat_mul z y) x)"

text \<open>
  The three angles of one \<^verbatim>\<open>np.random.normal(0.0, tick * randomness, size=3)\<close> draw.
  The global random generator is an explicit stream of draws and a position in it.
\<close>

type_synonym angles = "real \<times> real \<times> real"

definition rotate :: "Vector3 \<Rightarrow> angles \<Rightarrow> Vector3" where
  "rotate d ang = (case ang of (alpha, beta, gamma) \<Rightarrow> vec_mat d (spinner alpha beta gamma))"

section \<open>Zone\<close>

record zone =
  zone_x :: "real \<times> real"
  zone_y :: "real \<times> real"
  zone_z :: "real \<times> real"

text \<open>The three assertions of \<^verbatim>\<open>Zone.__init__\<close>.\<close>

definition valid_zone :: "zone \<Rightarrow> bool" where
  "valid_zone zn \<longleftrightarrow>
     0 \<le> fst (zone_x zn) \<and> 0 \<le> snd (zone_x zn) \<and>
     0 \<le> fst (zone_y zn) \<and> 0 \<le> snd (zone_y zn) \<and>
     0 \<le> fst (zone_z zn) \<and> 0 \<le> snd (zone_z zn)"

text \<open>Division of a float by a numpy float with the divide warning ignored.\<close>

definition np_div :: "real \<Rightarrow> real \<Rightarrow> npfloat" where
  "np_div p q =
     (if q \<noteq> 0 then Fin (p / q)
      else if 0 < p then PInf
      else if p < 0 then NInf
      else NaN)"

text \<open>The test \<^verbatim>\<open>i >= 0\<close>; every comparison with NaN is false.\<close>

fun ge_zero :: "npfloat \<Rightarrow> bool" where
  "ge_zero (Fin r) = (0 \<le> r)"
| "ge_zero PInf = True"
| "ge_zero NInf = False"
| "ge_zero NaN = False"

fun np_less :: "npfloat \<Rightarrow> npfloat \<Rightarrow> bool" where
  "np_less NaN _ = False"
| "np_less _ NaN = False"
| "np_less (Fin p) (Fin q) = (p < q)"
| "np_less (Fin p) PInf = True"
| "np_less (Fin p) NInf = False"
| "np_less PInf _ = False"
| "np_less NInf NInf = False"
| "np_less NInf _ = True"

text \<open>
  Python's \<^verbatim>\<open>min\<close> over an iterable: the first item, replaced by each later item
  that is smaller; \<^verbatim>\<open>ValueError\<close> when there is no item.
\<close>

definition py_min :: "npfloat list \<Rightarrow> error + npfloat" where
  "py_min xs = (case xs of
       [] \<Rightarrow> Inl ValueError
     | i # rest \<Rightarrow> Inr (foldl (\<lambda>m j. if np_less j m then j else m) i rest))"

definition constraints :: "zone \<Rightarrow> Vector3 \<Rightarrow> npfloat list" where
  "constraints zn direction =
     [np_div (- fst (zone_x zn)) (vec_x direction),
      np_div (snd (zone_x zn)) (vec_x direction),
      np_div (- fst (zone_y zn)) (vec_y direction),
      np_div (snd (zone_y zn)) (vec_y direction),
      np_div (- fst (zone_z zn)) (vec_z direction),
      np_div (snd (zone_z zn)) (vec_z direction)]"

definition constraint :: "zone \<Rightarrow> Vector3 \<Rightarrow> error + npfloat" where
  "constraint zn direction = py_min (filter ge_zero (constraints zn direction))"

text \<open>
  The box of a zone and its surface, as the spec words them: the box spans from \<open>-lo\<close> to
  \<open>hi\<close> on each axis; a point is on the surface when it is in the box and on the plane of
  one of the six faces.
\<close>

definition in_box :: "zone \<Rightarrow> Vector3 \<Rightarrow> bool" where
  "in_box zn p \<longleftrightarrow>
     - fst (zone_x zn) \<le> vec_x p \<and> vec_x p \<le> snd (zone_x zn) \<and>
     - fst (zone_y zn) \<le> vec_y p \<and> vec_y p \<le> snd (zone_y zn) \<and>
     - fst (zone_z zn) \<le> vec_z p \<and> vec_z p \<le> snd (zone_z zn)"

definition on_surface :: "zone \<Rightarrow> Vector3 \<Rightarrow> bool" where
  "on_surface zn p \<longleftrightarrow>
     in_box zn p \<and>
     (vec_x p = - fst (zone_x zn) \<or> vec_x p = snd (zone_x zn) \<or>
      vec_y p = - fst (zone_y zn) \<or> vec_y p = snd (zone_y zn) \<or>
      vec_z p = - fst (zone_z zn) \<or> vec_z p = snd (zone_z zn))"

text \<open>The zone of the demo driver: \<^verbatim>\<open>Zone((0.7, 0.7), (0.7, 0.7), (0.7, 0.7))\<close>.\<close>

definition demo_zone :: zone where
  "demo_zone = \<lparr>zone_x = (0.7, 0.7), zone_y = (0.7, 0.7), zone_z = (0.7, 0.7)\<rparr>"

section \<open>Vehicle and Human\<close>

record vehicle =
  veh_v :: real
  veh_a :: real
  veh_priority :: real
  veh_tick :: real
  veh_odometer :: real
  veh_direction :: Vector3
  veh_position :: Vector3
  veh_speed :: real
  veh_offline :: bool

text \<open>
  The four assertions of \<^verbatim>\<open>Vehicle.__init__\<close>. The four fields are private and
  never assigned again, so every vehicle that exists satisfies them.
\<close>

definition valid_vehicle :: "vehicle \<Rightarrow> bool" where
  "valid_vehicle veh \<longleftrightarrow>
     0 < veh_v veh \<and> 0 < veh_a veh \<and> 0 < veh_priority veh \<and> 0 < veh_tick veh"

definition new_vehicle :: "real \<Rightarrow> real \<Rightarrow> real \<Rightarrow> real \<Rightarrow> vehicle" where
  "new_vehicle v a priority tick =
     \<lparr>veh_v = v, veh_a = a, veh_priority = priority, veh_tick = tick,
      veh_odometer = 0, veh_direction = Vector3 0 0 0, veh_position = Vector3 0 0 0,
      veh_speed = 0, veh_offline = False\<rparr>"

text \<open>The arithmetic of \<^verbatim>\<open>move\<close> on a constraint that may be infinite.\<close>

fun np_sub :: "npfloat \<Rightarrow> real \<Rightarrow> npfloat" where
  "np_sub (Fin c) r = Fin (c - r)"
| "np_sub PInf r = PInf"
| "np_sub NInf r = NInf"
| "np_sub NaN r = NaN"

fun np_mul :: "real \<Rightarrow> npfloat \<Rightarrow> npfloat" where
  "np_mul k (Fin c) = Fin (k * c)"
| "np_mul k PInf = (if 0 < k then PInf else if k < 0 then NInf else NaN)"
| "np_mul k NInf = (if 0 < k then NInf else if k < 0 then PInf else NaN)"
| "np_mul k NaN = NaN"

text \<open>\<^verbatim>\<open>np.clip(a, lo, hi)\<close> is \<^verbatim>\<open>minimum(maximum(a, lo), hi)\<close>; NaN stays NaN.\<close>

fun np_clip :: "npfloat \<Rightarrow> real \<Rightarrow> real \<Rightarrow> npfloat" where
  "np_clip (Fin x) lo hi = Fin (min (max x lo) hi)"
| "np_clip PInf lo hi = Fin hi"
| "np_clip NInf lo hi = Fin (min lo hi)"
| "np_clip NaN lo hi = NaN"

text \<open>
  \<^verbatim>\<open>Vehicle.move\<close>. The direction is assigned before the zone is queried, so it is
  changed also when the query raises. The result is the vehicle after the call and
  either the error raised or the distance returned.
\<close>

definition move :: "vehicle \<Rightarrow> zone \<Rightarrow> angles \<Rightarrow> vehicle \<times> (error + real)" where
  "move veh zn ang =
     (let veh1 = veh\<lparr>veh_direction := rotate (veh_direction veh) ang\<rparr> in
      case constraint zn (veh_direction veh1) of
        Inl e \<Rightarrow> (veh1, Inl e)
      | Inr c \<Rightarrow>
          let vi = veh_speed veh1;
              a_raw = np_mul (2 / (veh_tick veh1)\<^sup>2) (np_sub c (vi * veh_tick veh1))
          in case np_clip a_raw (- min (vi / veh_tick veh1) (veh_a veh1)) (veh_a veh1) of
               Fin a \<Rightarrow>
                 (case (if a > 0 \<and> \<bar>veh_v veh1 - vi\<bar> / a < veh_tick veh1
                        then let t = \<bar>veh_v veh1 - vi\<bar> / a;
                                 d1 = vi * t + 1 / 2 * a * t\<^sup>2;
                                 d2 = veh_v veh1 * (veh_tick veh1 - t)
                             in (d1 + d2, veh_v veh1)
                        else let d = vi * veh_tick veh1 + 1 / 2 * a * (veh_tick veh1)\<^sup>2;
                                 vf = vi + a * veh_tick veh1
                             in (d, max vf 0)) of
                    (moved, vf) \<Rightarrow>
                      (veh1\<lparr>veh_odometer := veh_odometer veh1 + moved,
                            veh_position := vadd (veh_position veh1)
                                                 (vscale (veh_direction veh1) moved),
                            veh_speed := vf\<rparr>,
                       Inr moved))
             | _ \<Rightarrow> (veh1, Inl NotANumber))"

text \<open>
  The last part of \<^verbatim>\<open>move\<close> under a name of its own, for the proofs: the distance
  and the final speed as a function of the clipped acceleration. \<open>move_Fin\<close> shows that
  \<open>move\<close> computes exactly this pair.
\<close>

definition kinematics :: "vehicle \<Rightarrow> real \<Rightarrow> real \<times> real" where
  "kinematics veh a =
     (let vi = veh_speed veh in
      if a > 0 \<and> \<bar>veh_v veh - vi\<bar> / a < veh_tick veh
      then let t = \<bar>veh_v veh - vi\<bar> / a;
               d1 = vi * t + 1 / 2 * a * t\<^sup>2;
               d2 = veh_v veh * (veh_tick veh - t)
           in (d1 + d2, veh_v veh)
      else let d = vi * veh_tick veh + 1 / 2 * a * (veh_tick veh)\<^sup>2;
               vf = vi + a * veh_tick veh
           in (d, max vf 0))"

text \<open>
  Clipping to an interval as the spec words it: a value below the interval gives its lower
  end, a value above it the upper end.
\<close>

definition clip_interval :: "real \<Rightarrow> real \<Rightarrow> real \<Rightarrow> real" where
  "clip_interval lo hi x = (if x < lo then lo else if hi < x then hi else x)"

text \<open>
  The vehicle of the spec's concrete scenario: \<^verbatim>\<open>Vehicle(14, 7, 1, 0.1)\<close> at the
  origin with speed 0, heading along x.
\<close>

definition demo_vehicle :: vehicle where
  "demo_vehicle = (new_vehicle 14 7 1 0.1)\<lparr>veh_direction := Vector3 1 0 0\<rparr>"

record human =
  hum_v :: real
  hum_tick :: real
  hum_position :: Vector3
  hum_direction :: Vector3

definition human_move :: "human \<Rightarrow> angles \<Rightarrow> human" where
  "human_move h ang =
     (let h1 = h\<lparr>hum_direction := rotate (hum_direction h) ang\<rparr>
      in h1\<lparr>hum_position := vadd (hum_position h1)
               (vscale (vscale (hum_direction h1) (hum_tick h1)) (hum_v h1))\<rparr>)"

section \<open>Scenario\<close>

text \<open>
  An observation is a Python list that holds floats and, for each human, the boolean
  \<^verbatim>\<open>feared\<close>.
\<close>

datatype obs_val = Num real | Flag bool

type_synonym yield = "obs_val list \<times> real \<times> bool"

record scenario =
  vehicles :: "vehicle list"
  humans :: "human list"
  sc_tick :: real
  elapsed :: int

text \<open>
  The local variables of one pass of the second loop of \<^verbatim>\<open>step\<close>. The list
  \<^verbatim>\<open>offline\<close> is only appended to during that loop, so each pass returns what it
  appended.
\<close>

record locals =
  obs :: "obs_val list"
  reward :: real
  is_done :: bool
  crashed :: bool
  warning :: real
  offline :: "nat list"

text \<open>The body of \<^verbatim>\<open>for other in self.vehicles[:i] + self.vehicles[i + 1:]\<close>.\<close>

definition see_vehicle :: "nat \<Rightarrow> vehicle \<Rightarrow> locals \<Rightarrow> vehicle \<Rightarrow> locals" where
  "see_vehicle i vehicle st other =
     (if veh_offline other then st\<lparr>obs := obs st @ replicate 8 (Num 0)\<rparr>
      else
        let displacement = vsub (veh_position other) (veh_position vehicle);
            info = map Num (vec_t displacement @ vec_t (veh_direction other) @
                            [veh_speed other, veh_priority other]);
            st1 = st\<lparr>obs := obs st @ info\<rparr>
        in if warning st1 \<noteq> 0 \<or> crashed st1 then st1
           else
             let distance = magnitude displacement
             in if distance < 1
                then st1\<lparr>offline := offline st1 @ [i], crashed := True\<rparr>
                else if distance < 3 \<and> veh_priority vehicle < veh_priority other \<and>
                        veh_speed vehicle > 1
                then st1\<lparr>warning := veh_speed vehicle / veh_v vehicle\<rparr>
                else if distance < 10 \<and> veh_speed vehicle > 5 \<and> veh_speed other > 5
                then st1\<lparr>reward := reward st1 * (0.9 + distance * 0.01)\<rparr>
                else st1)"

text \<open>The body of \<^verbatim>\<open>for human in self.humans\<close>.\<close>

definition see_human :: "nat \<Rightarrow> vehicle \<Rightarrow> locals \<Rightarrow> human \<Rightarrow> locals" where
  "see_human i vehicle st h =
     (let displacement = vsub (hum_position h) (veh_position vehicle);
          feared = (magnitude displacement < 3 \<and> veh_speed vehicle > 1);
          info = map Num (vec_t displacement) @ [Flag feared];
          st1 = st\<lparr>obs := obs st @ info\<rparr>
      in if warning st1 \<noteq> 0 \<or> crashed st1 then st1
         else
           let distance = magnitude displacement
           in if distance < 1
              then st1\<lparr>offline := offline st1 @ [i], crashed := True\<rparr>
              else if distance < 3 \<and> veh_speed vehicle > 1
              then st1\<lparr>warning := veh_speed vehicle / veh_v vehicle\<rparr>
              else if distance < 10 \<and> veh_speed vehicle > 5
              then st1\<lparr>reward := reward st1 * (0.9 + distance * 0.01)\<rparr>
              else st1)"

text \<open>
  The local variables of a pass before the scans: the own part of the observation, the base
  reward, and the check \<^verbatim>\<open>vehicle.odometer >= 20\<close>.
\<close>

definition init_locals :: "nat \<Rightarrow> vehicle \<Rightarrow> real list \<Rightarrow> locals" where
  "init_locals i vehicle rewards =
     (let st0 = \<lparr>obs = map Num (vec_t (veh_direction vehicle) @ [veh_speed vehicle]),
                 reward = rewards ! i, is_done = False, crashed = False, warning = 0,
                 offline = []\<rparr>
      in if veh_odometer vehicle \<ge> 20
         then st0\<lparr>offline := offline st0 @ [i],
                  reward := 5.0 * veh_priority vehicle,
                  is_done := True\<rparr>
         else st0)"

text \<open>The local variables after the two scans.\<close>

definition scan :: "nat \<Rightarrow> vehicle list \<Rightarrow> human list \<Rightarrow> real list \<Rightarrow> locals" where
  "scan i vs hs rewards =
     (let vehicle = vs ! i;
          st1 = init_locals i vehicle rewards;
          st2 = foldl (see_vehicle i vehicle) st1 (take i vs @ drop (i + 1) vs)
      in foldl (see_human i vehicle) st2 hs)"

text \<open>
  One pass of \<^verbatim>\<open>for i, vehicle in enumerate(self.vehicles)\<close>: the tuple it yields and
  the indices it appended to \<^verbatim>\<open>offline\<close>, or the \<^verbatim>\<open>IndexError\<close> of
  \<^verbatim>\<open>rewards[i]\<close>. The index comes from \<^verbatim>\<open>enumerate\<close>, so \<open>vs ! i\<close> is in range.
\<close>

definition observe ::
  "nat \<Rightarrow> vehicle list \<Rightarrow> human list \<Rightarrow> real list \<Rightarrow> error + (yield \<times> nat list)" where
  "observe i vs hs rewards =
     (let vehicle = vs ! i in
      if veh_offline vehicle
      then
        let dim = 4 + 8 * (int (length vs) - 1) + 4 * int (length hs)
        in if i < length rewards
           then Inr ((replicate (nat dim) (Num 0), rewards ! i, True), [])
           else Inl IndexError
      else if \<not> i < length rewards then Inl IndexError
      else
        let st = scan i vs hs rewards
        in Inr (if crashed st then (obs st, - 5, True)
                else if warning st \<noteq> 0 then (obs st, - warning st, False)
                else (obs st, reward st, is_done st),
                offline st))"

text \<open>
  The local variables of a pass after the first \<open>n\<close> agents of the two scans: the other
  vehicles in list order, then the humans.
\<close>

definition scan_upto ::
  "nat \<Rightarrow> vehicle list \<Rightarrow> human list \<Rightarrow> real list \<Rightarrow> nat \<Rightarrow> locals" where
  "scan_upto i vs hs rewards n =
     (let vehicle = vs ! i;
          others = take i vs @ drop (i + 1) vs
      in foldl (see_human i vehicle)
           (foldl (see_vehicle i vehicle) (init_locals i vehicle rewards) (take n others))
           (take (n - length others) hs))"

text \<open>
  The invariant of both loops: a warning and a crash are never recorded together, and the
  pass has appended its own index once for the odometer check and once for a crash.
\<close>

definition scan_inv :: "nat \<Rightarrow> vehicle \<Rightarrow> locals \<Rightarrow> bool" where
  "scan_inv i v st \<longleftrightarrow>
     \<not> (warning st \<noteq> 0 \<and> crashed st) \<and>
     offline st = (if 20 \<le> veh_odometer v then [i] else []) @ (if crashed st then [i] else [])"

text \<open>
  The tuple a pass yields and the indices it appends when \<^verbatim>\<open>rewards[i]\<close> is in
  range, under names of their own for the proofs (\<open>observe_in_range\<close> relates them to
  \<open>observe\<close>).
\<close>

definition yield_of :: "nat \<Rightarrow> vehicle list \<Rightarrow> human list \<Rightarrow> real list \<Rightarrow> yield" where
  "yield_of i vs hs rewards =
     (if veh_offline (vs ! i)
      then (replicate (nat (4 + 8 * (int (length vs) - 1) + 4 * int (length hs))) (Num 0),
            rewards ! i, True)
      else let st = scan i vs hs rewards
           in if crashed st then (obs st, - 5, True)
              else if warning st \<noteq> 0 then (obs st, - warning st, False)
              else (obs st, reward st, is_done st))"

definition marks_of :: "nat \<Rightarrow> vehicle list \<Rightarrow> human list \<Rightarrow> real list \<Rightarrow> nat list" where
  "marks_of i vs hs rewards =
     (if veh_offline (vs ! i) then [] else offline (scan i vs hs rewards))"

text \<open>
  The first loop: \<^verbatim>\<open>zip\<close> stops at the shorter of the two sequences. Each vehicle that
  moves takes the next draw of the random stream. The result is the vehicles after the
  loop, the list \<^verbatim>\<open>rewards\<close>, the position in the stream and the error raised, if any.
\<close>

fun phase1 ::
  "vehicle list \<Rightarrow> zone list \<Rightarrow> (nat \<Rightarrow> angles) \<Rightarrow> nat \<Rightarrow>
   vehicle list \<times> real list \<times> nat \<times> error option" where
  "phase1 [] zs draws k = ([], [], k, None)"
| "phase1 (vehicle # vs) [] draws k = (vehicle # vs, [], k, None)"
| "phase1 (vehicle # vs) (zn # zs) draws k =
     (if veh_offline vehicle
      then (case phase1 vs zs draws k of
              (vs', rewards, k', err) \<Rightarrow> (vehicle # vs', 0 # rewards, k', err))
      else (case move vehicle zn (draws k) of
              (vehicle', Inl e) \<Rightarrow> (vehicle' # vs, [], Suc k, Some e)
            | (vehicle', Inr moved) \<Rightarrow>
                (case phase1 vs zs draws (Suc k) of
                   (vs', rewards, k', err) \<Rightarrow>
                     (vehicle' # vs', (moved * veh_priority vehicle') # rewards, k', err))))"

fun humans_move :: "human list \<Rightarrow> (nat \<Rightarrow> angles) \<Rightarrow> nat \<Rightarrow> human list" where
  "humans_move [] draws k = []"
| "humans_move (h # hs) draws k = human_move h (draws k) # humans_move hs draws (Suc k)"

text \<open>
  The second loop over the indices still to visit: the tuples yielded, the error that ended
  the loop, if any, and the list \<^verbatim>\<open>offline\<close>.
\<close>

fun phase2 ::
  "vehicle list \<Rightarrow> human list \<Rightarrow> real list \<Rightarrow> nat list \<Rightarrow> nat list \<Rightarrow>
   yield list \<times> error option \<times> nat list" where
  "phase2 vs hs rewards [] off = ([], None, off)"
| "phase2 vs hs rewards (i # rest) off =
     (case observe i vs hs rewards of
        Inl e \<Rightarrow> ([], Some e, off)
      | Inr (y, marked) \<Rightarrow>
          (case phase2 vs hs rewards rest (off @ marked) of
             (ys, err, off') \<Rightarrow> (y # ys, err, off')))"

text \<open>The third loop: \<^verbatim>\<open>for i in offline: self.vehicles[i].offline = True\<close>.\<close>

definition late_update :: "nat list \<Rightarrow> vehicle list \<Rightarrow> vehicle list" where
  "late_update off vs = foldl (\<lambda>ws i. ws[i := (ws ! i)\<lparr>veh_offline := True\<rparr>]) vs off"

text \<open>
  \<^verbatim>\<open>Scenario.step\<close>, with its generator run to the end by the caller: the tuples it
  yielded in order, the exception that ended it, if any, and the scenario it leaves. The
  zone source is the list of the zones it can produce; the late update is not reached when
  an exception ends the second loop.
\<close>

record outcome =
  yielded :: "yield list"
  raised :: "error option"
  final :: scenario

definition step :: "scenario \<Rightarrow> zone list \<Rightarrow> (nat \<Rightarrow> angles) \<Rightarrow> outcome" where
  "step s zones draws =
     (let s0 = s\<lparr>elapsed := elapsed s + 1\<rparr> in
      case phase1 (vehicles s0) zones draws 0 of
        (vs1, rewards, k, err1) \<Rightarrow>
          let s1 = s0\<lparr>vehicles := vs1\<rparr> in
          (case err1 of
             Some e \<Rightarrow> \<lparr>yielded = [], raised = Some e, final = s1\<rparr>
           | None \<Rightarrow>
               let s2 = s1\<lparr>humans := humans_move (humans s1) draws k\<rparr> in
               (case phase2 (vehicles s2) (humans s2) rewards [0..<length (vehicles s2)] [] of
                  (ys, err2, off) \<Rightarrow>
                    (case err2 of
                       Some e \<Rightarrow> \<lparr>yielded = ys, raised = Some e, final = s2\<rparr>
                     | None \<Rightarrow>
                         \<lparr>yielded = ys, raised = None,
                          final = s2\<lparr>vehicles := late_update off (vehicles s2)\<rparr>\<rparr>))))"

text \<open>
  A driver that calls \<^verbatim>\<open>step\<close> tick after tick, each time with a zone source and a
  stretch of the random stream, and keeps every outcome.
\<close>

fun run :: "scenario \<Rightarrow> (zone list \<times> (nat \<Rightarrow> angles)) list \<Rightarrow> outcome list" where
  "run s [] = []"
| "run s (inp # rest) =
     (let r = step s (fst inp) (snd inp) in r # run (final r) rest)"

text \<open>
  The layout of an observation as the spec words it: own direction and speed, then for each
  other vehicle in list order 8 zeros when it is offline and else displacement, direction,
  speed and priority, then for each human displacement and the flag \<^verbatim>\<open>feared\<close>.
\<close>

definition other_fields :: "vehicle \<Rightarrow> vehicle \<Rightarrow> obs_val list" where
  "other_fields vehicle other =
     (if veh_offline other then replicate 8 (Num 0)
      else [Num (vec_x (veh_position other) - vec_x (veh_position vehicle)),
            Num (vec_y (veh_position other) - vec_y (veh_position vehicle)),
            Num (vec_z (veh_position other) - vec_z (veh_position vehicle)),
            Num (vec_x (veh_direction other)),
            Num (vec_y (veh_direction other)),
            Num (vec_z (veh_direction other)),
            Num (veh_speed other),
            Num (veh_priority other)])"

definition human_fields :: "vehicle \<Rightarrow> human \<Rightarrow> obs_val list" where
  "human_fields vehicle h =
     [Num (vec_x (hum_position h) - vec_x (veh_position vehicle)),
      Num (vec_y (hum_position h) - vec_y (veh_position vehicle)),
      Num (vec_z (hum_position h) - vec_z (veh_position vehicle)),
      Flag (magnitude (vsub (hum_position h) (veh_position vehicle)) < 3 \<and>
            veh_speed vehicle > 1)]"

definition obs_layout :: "nat \<Rightarrow> vehicle list \<Rightarrow> human list \<Rightarrow> obs_val list" where
  "obs_layout i vs hs =
     [Num (vec_x (veh_direction (vs ! i))), Num (vec_y (veh_direction (vs ! i))),
      Num (vec_z (veh_direction (vs ! i))), Num (veh_speed (vs ! i))] @
     concat (map (other_fields (vs ! i)) (take i vs @ drop (Suc i) vs)) @
     concat (map (human_fields (vs ! i)) hs)"

section \<open>Concrete scenarios\<close>

text \<open>A human that stands still: its direction is the zero vector.\<close>

definition still_human :: "Vector3 \<Rightarrow> human" where
  "still_human p = \<lparr>hum_v = 1, hum_tick = 0.1, hum_position = p, hum_direction = Vector3 0 0 0\<rparr>"

text \<open>The random stream whose every draw is three zero angles.\<close>

definition no_draws :: "nat \<Rightarrow> angles" where
  "no_draws n = (0, 0, 0)"

text \<open>Two demo vehicles half a unit apart and one human far away.\<close>

definition crash_scenario :: scenario where
  "crash_scenario =
     \<lparr>vehicles = [demo_vehicle, demo_vehicle\<lparr>veh_position := Vector3 0.5 0 0\<rparr>],
      humans = [still_human (Vector3 5 0 0)], sc_tick = 0.1, elapsed = 0\<rparr>"

text \<open>A zone that reaches 100 units from the origin in every direction.\<close>

definition wide_zone :: zone where
  "wide_zone = \<lparr>zone_x = (100, 100), zone_y = (100, 100), zone_z = (100, 100)\<rparr>"

text \<open>
  One demo vehicle at cruise speed with the odometer at \<open>d\<close>, and a human that stands two
  units beyond where the vehicle will be after its move.
\<close>

definition cruise_scenario :: "real \<Rightarrow> scenario" where
  "cruise_scenario d =
     \<lparr>vehicles = [demo_vehicle\<lparr>veh_odometer := d, veh_speed := 14\<rparr>],
      humans = [still_human (Vector3 (17 / 5) 0 0)], sc_tick = 0.1, elapsed = 0\<rparr>"

text \<open>
  Two demo vehicles at cruise speed two units apart, the second with the higher priority,
  and a human that stands half a unit beyond where the first vehicle will be after its
  move: the first vehicle is warned by the second and then passes the human within crash
  distance.
\<close>

definition suppress_scenario :: scenario where
  "suppress_scenario =
     \<lparr>vehicles = [demo_vehicle\<lparr>veh_priority := 1, veh_odometer := 3,
                                veh_position := Vector3 0 0 0, veh_speed := 14\<rparr>,
                  demo_vehicle\<lparr>veh_priority := 2, veh_odometer := 0,
                                veh_position := Vector3 0 2 0, veh_speed := 14\<rparr>],
      humans = [still_human (Vector3 (19 / 10) 0 0)], sc_tick = 0.1, elapsed = 0\<rparr>"

text \<open>An offline demo vehicle at the origin, a second one five units away, one human.\<close>

definition parked_scenario :: scenario where
  "parked_scenario =
     \<lparr>vehicles = [demo_vehicle\<lparr>veh_offline := True\<rparr>,
                  demo_vehicle\<lparr>veh_position := Vector3 5 0 0\<rparr>],
      humans = [still_human (Vector3 0 9 0)], sc_tick = 0.1, elapsed = 0\<rparr>"

text \<open>Two ticks, each with the demo zone for both vehicles and no rotation.\<close>

definition two_ticks :: "(zone list \<times> (nat \<Rightarrow> angles)) list" where
  "two_ticks = [([demo_zone, demo_zone], no_draws), ([demo_zone, demo_zone], no_draws)]"

section \<open>Properties of Zone.constraint\<close>

lemma ge_zero_cases: "ge_zero x \<Longrightarrow> (\<exists>r. x = Fin r \<and> 0 \<le> r) \<or> x = PInf"
  by (cases x) auto

lemma np_less_trans_ge:
  "ge_zero x \<Longrightarrow> ge_zero y \<Longrightarrow> ge_zero m \<Longrightarrow> \<not> np_less x m \<Longrightarrow> np_less y m \<Longrightarrow> \<not> np_less x y"
  by (cases x; cases y; cases m) auto

lemma foldl_min_mem:
  "foldl (\<lambda>m j. if np_less j m then j else m) i rest \<in> set (i # rest)"
proof (induction rest arbitrary: i)
  case Nil
  show ?case by simp
next
  case (Cons j rest)
  show ?case using Cons.IH [of "if np_less j i then j else i"] by auto
qed

lemma foldl_min_lower:
  assumes "\<forall>x \<in> set (i # rest). ge_zero x"
    and "x \<in> set done_l \<union> set (i # rest)"
    and "\<forall>y \<in> set done_l. ge_zero y \<and> \<not> np_less y i"
  shows "\<not> np_less x (foldl (\<lambda>m j. if np_less j m then j else m) i rest)"
  using assms
proof (induction rest arbitrary: i done_l)
  case Nil
  then show ?case by (cases x) auto
next
  case (Cons j rest)
  let ?i' = "if np_less j i then j else i"
  have a: "\<forall>x \<in> set (?i' # rest). ge_zero x" using Cons.prems(1) by auto
  have b: "x \<in> set (i # j # done_l) \<union> set (?i' # rest)" using Cons.prems(2) by auto
  have c: "\<forall>y \<in> set (i # j # done_l). ge_zero y \<and> \<not> np_less y ?i'"
  proof
    fix y
    assume y: "y \<in> set (i # j # done_l)"
    have gi: "ge_zero i" and gj: "ge_zero j" using Cons.prems(1) by auto
    have gy: "ge_zero y" using y gi gj Cons.prems(3) by auto
    have "\<not> np_less y ?i'"
    proof (cases "np_less j i")
      case True
      have "y = i \<or> y = j \<or> y \<in> set done_l" using y by auto
      then show ?thesis
      proof (elim disjE)
        assume "y = i"
        then show ?thesis using True gi gj by (cases i; cases j) auto
      next
        assume "y = j"
        then show ?thesis using True gj by (cases j) auto
      next
        assume "y \<in> set done_l"
        then have "\<not> np_less y i" using Cons.prems(3) by auto
        then show ?thesis using True np_less_trans_ge [OF gy gj gi] by auto
      qed
    next
      case False
      have "y = i \<or> y = j \<or> y \<in> set done_l" using y by auto
      then show ?thesis
      proof (elim disjE)
        assume "y = i"
        then show ?thesis using False gi by (cases i) auto
      next
        assume "y = j"
        then show ?thesis using False by auto
      next
        assume "y \<in> set done_l"
        then show ?thesis using Cons.prems(3) False by auto
      qed
    qed
    then show "ge_zero y \<and> \<not> np_less y ?i'" using gy by simp
  qed
  show ?case using Cons.IH [OF a b c] by simp
qed

lemma py_min_Inl: "py_min xs = Inl e \<longleftrightarrow> e = ValueError \<and> xs = []"
  by (auto simp: py_min_def split: list.splits)

lemma py_min_mem: "py_min xs = Inr m \<Longrightarrow> m \<in> set xs"
  using foldl_min_mem by (auto simp: py_min_def split: list.splits)

lemma py_min_lower:
  assumes "py_min xs = Inr m" and "\<forall>x \<in> set xs. ge_zero x" and "x \<in> set xs"
  shows "\<not> np_less x m"
proof -
  obtain i rest where xs: "xs = i # rest" and m: "m = foldl (\<lambda>m j. if np_less j m then j else m) i rest"
    using assms(1) by (auto simp: py_min_def split: list.splits)
  show ?thesis
    using foldl_min_lower [of i rest x "[]"] assms(2,3) unfolding xs m by simp
qed

lemma np_div_nonzero: "q \<noteq> 0 \<Longrightarrow> np_div p q = Fin (p / q)"
  by (simp add: np_div_def)

lemma np_div_zero: "np_div p 0 = (if 0 < p then PInf else if p < 0 then NInf else NaN)"
  by (simp add: np_div_def)

lemma np_div_Fin: "np_div p q = Fin c \<Longrightarrow> q \<noteq> 0 \<and> q * c = p"
  by (auto simp: np_div_def split: if_splits)

text \<open>One axis: its two candidates, the bounds non-negative.\<close>

lemma axis_has_candidate:
  assumes "0 \<le> lo" "0 \<le> hi" "q \<noteq> 0"
  shows "\<exists>r. 0 \<le> r \<and> (np_div (- lo) q = Fin r \<or> np_div hi q = Fin r)"
proof (cases "0 < q")
  case True
  then have "np_div hi q = Fin (hi / q)" "0 \<le> hi / q" using assms by (simp_all add: np_div_def)
  then show ?thesis by blast
next
  case False
  then have "q < 0" using assms by simp
  then have "np_div (- lo) q = Fin (- lo / q)" "0 \<le> - lo / q"
    using assms by (simp_all add: np_div_def divide_nonneg_neg)
  then show ?thesis by blast
qed

lemma axis_in_slab:
  assumes "0 \<le> lo" "0 \<le> hi" "0 \<le> c"
    and lo: "ge_zero (np_div (- lo) q) \<Longrightarrow> \<not> np_less (np_div (- lo) q) (Fin c)"
    and hi: "ge_zero (np_div hi q) \<Longrightarrow> \<not> np_less (np_div hi q) (Fin c)"
  shows "- lo \<le> q * c \<and> q * c \<le> hi"
proof -
  consider "q = 0" | "0 < q" | "q < 0" by linarith
  then show ?thesis
  proof cases
    case 1
    then show ?thesis using assms by simp
  next
    case 2
    then have "0 \<le> hi / q" using assms by simp
    then have "c \<le> hi / q" using hi 2 by (simp add: np_div_def)
    then have "q * c \<le> hi" using 2 by (simp add: pos_le_divide_eq mult.commute)
    moreover have "0 \<le> q * c" using 2 assms by simp
    ultimately show ?thesis using assms by linarith
  next
    case 3
    then have "0 \<le> - lo / q" using assms by (simp add: divide_nonneg_neg)
    then have "c \<le> - lo / q" using lo 3 by (simp add: np_div_def)
    then have "- lo \<le> q * c" using neg_le_divide_eq [OF 3, of c "- lo"] by (simp add: mult.commute)
    moreover have "q * c \<le> 0" using 3 assms by (simp add: mult_nonpos_nonneg)
    ultimately show ?thesis using assms by linarith
  qed
qed

lemma set_constraints:
  "set (constraints zn d) =
     {np_div (- fst (zone_x zn)) (vec_x d), np_div (snd (zone_x zn)) (vec_x d),
      np_div (- fst (zone_y zn)) (vec_y d), np_div (snd (zone_y zn)) (vec_y d),
      np_div (- fst (zone_z zn)) (vec_z d), np_div (snd (zone_z zn)) (vec_z d)}"
  unfolding constraints_def by (simp only: list.set)

lemma constraint_Inl:
  "constraint zn d = Inl e \<longleftrightarrow> e = ValueError \<and> (\<forall>i \<in> set (constraints zn d). \<not> ge_zero i)"
  unfolding constraint_def py_min_Inl filter_empty_conv by (rule refl)

lemma constraint_mem:
  assumes "constraint zn d = Inr m"
  shows "m \<in> set (constraints zn d) \<and> ge_zero m"
proof -
  have "py_min (filter ge_zero (constraints zn d)) = Inr m"
    using assms unfolding constraint_def .
  from py_min_mem [OF this] show ?thesis by simp
qed

lemma constraint_lower:
  assumes "constraint zn d = Inr m" and "i \<in> set (constraints zn d)" and "ge_zero i"
  shows "\<not> np_less i m"
proof -
  have m: "py_min (filter ge_zero (constraints zn d)) = Inr m"
    using assms(1) unfolding constraint_def .
  have a: "\<forall>x \<in> set (filter ge_zero (constraints zn d)). ge_zero x" by simp
  have b: "i \<in> set (filter ge_zero (constraints zn d))" using assms(2,3) by simp
  show ?thesis by (rule py_min_lower [OF m a b])
qed

lemma constraint_finite:
  assumes "valid_zone zn" and nz: "vec_x d \<noteq> 0 \<or> vec_y d \<noteq> 0 \<or> vec_z d \<noteq> 0"
  shows "\<exists>c. constraint zn d = Inr (Fin c) \<and> 0 \<le> c"
proof -
  have v: "0 \<le> fst (zone_x zn)" "0 \<le> snd (zone_x zn)" "0 \<le> fst (zone_y zn)"
    "0 \<le> snd (zone_y zn)" "0 \<le> fst (zone_z zn)" "0 \<le> snd (zone_z zn)"
    using assms(1) by (simp_all add: valid_zone_def)
  have "\<exists>r. 0 \<le> r \<and> Fin r \<in> set (constraints zn d)"
    using nz
  proof (elim disjE)
    assume "vec_x d \<noteq> 0"
    from axis_has_candidate [OF v(1) v(2) this] show ?thesis
      unfolding set_constraints by auto
  next
    assume "vec_y d \<noteq> 0"
    from axis_has_candidate [OF v(3) v(4) this] show ?thesis
      unfolding set_constraints by auto
  next
    assume "vec_z d \<noteq> 0"
    from axis_has_candidate [OF v(5) v(6) this] show ?thesis
      unfolding set_constraints by auto
  qed
  then obtain r where r: "0 \<le> r" "Fin r \<in> set (constraints zn d)" by blast
  then have "\<not> (\<forall>i \<in> set (constraints zn d). \<not> ge_zero i)" by force
  then obtain m where m: "constraint zn d = Inr m"
    using constraint_Inl [of zn d] by (cases "constraint zn d") auto
  have gm: "ge_zero m" using constraint_mem [OF m] by simp
  have "\<not> np_less (Fin r) m" using constraint_lower [OF m r(2)] r(1) by simp
  then obtain c where "m = Fin c" "0 \<le> c" using gm by (cases m) auto
  then show ?thesis using m by blast
qed

text \<open>
  Claim C2. For a zone whose six bounds are non-negative and a direction of length one,
  \<^verbatim>\<open>Zone.constraint\<close> returns a finite value \<open>c \<ge> 0\<close>, and the point
  origin + \<open>c\<close> * direction lies on the surface of the box
  \<open>[-lo_x, hi_x] \<times> [-lo_y, hi_y] \<times> [-lo_z, hi_z]\<close>: it is in the box and on the
  plane of one of its faces. (Over the reals; the floats of the source reach the face only
  up to rounding.)
\<close>

theorem constraint_on_surface:
  assumes "valid_zone zn" and "magnitude d = 1"
  shows "\<exists>c. constraint zn d = Inr (Fin c) \<and> 0 \<le> c \<and>
             on_surface zn (vadd (Vector3 0 0 0) (vscale d c))"
proof -
  have nz: "vec_x d \<noteq> 0 \<or> vec_y d \<noteq> 0 \<or> vec_z d \<noteq> 0"
    using assms(2) by (auto simp: magnitude_def)
  obtain c where c: "constraint zn d = Inr (Fin c)" "0 \<le> c"
    using constraint_finite [OF assms(1) nz] by blast
  have v: "0 \<le> fst (zone_x zn)" "0 \<le> snd (zone_x zn)" "0 \<le> fst (zone_y zn)"
    "0 \<le> snd (zone_y zn)" "0 \<le> fst (zone_z zn)" "0 \<le> snd (zone_z zn)"
    using assms(1) by (simp_all add: valid_zone_def)
  have low: "\<And>i. i \<in> set (constraints zn d) \<Longrightarrow> ge_zero i \<Longrightarrow> \<not> np_less i (Fin c)"
    using constraint_lower [OF c(1)] by blast
  have x: "- fst (zone_x zn) \<le> vec_x d * c \<and> vec_x d * c \<le> snd (zone_x zn)"
    by (rule axis_in_slab [OF v(1) v(2) c(2)]; rule low; simp add: set_constraints)
  have y: "- fst (zone_y zn) \<le> vec_y d * c \<and> vec_y d * c \<le> snd (zone_y zn)"
    by (rule axis_in_slab [OF v(3) v(4) c(2)]; rule low; simp add: set_constraints)
  have z: "- fst (zone_z zn) \<le> vec_z d * c \<and> vec_z d * c \<le> snd (zone_z zn)"
    by (rule axis_in_slab [OF v(5) v(6) c(2)]; rule low; simp add: set_constraints)
  have "Fin c \<in> set (constraints zn d)" using constraint_mem [OF c(1)] by simp
  then have "Fin c = np_div (- fst (zone_x zn)) (vec_x d) \<or> Fin c = np_div (snd (zone_x zn)) (vec_x d) \<or>
      Fin c = np_div (- fst (zone_y zn)) (vec_y d) \<or> Fin c = np_div (snd (zone_y zn)) (vec_y d) \<or>
      Fin c = np_div (- fst (zone_z zn)) (vec_z d) \<or> Fin c = np_div (snd (zone_z zn)) (vec_z d)"
    by (simp add: set_constraints)
  then have face: "vec_x d * c = - fst (zone_x zn) \<or> vec_x d * c = snd (zone_x zn) \<or>
      vec_y d * c = - fst (zone_y zn) \<or> vec_y d * c = snd (zone_y zn) \<or>
      vec_z d * c = - fst (zone_z zn) \<or> vec_z d * c = snd (zone_z zn)"
    using np_div_Fin [OF sym] by blast
  have "on_surface zn (vadd (Vector3 0 0 0) (vscale d c))"
    using x y z face by (simp add: on_surface_def in_box_def vadd_def vscale_def)
  then show ?thesis using c by blast
qed

theorem constraint_on_surface_witness:
  "valid_zone demo_zone \<and> magnitude (Vector3 1 0 0) = 1 \<and>
   (\<exists>c. constraint demo_zone (Vector3 1 0 0) = Inr (Fin c) \<and> 0 \<le> c \<and>
        on_surface demo_zone (vadd (Vector3 0 0 0) (vscale (Vector3 1 0 0) c)))"
proof -
  have v: "valid_zone demo_zone" by (simp add: valid_zone_def demo_zone_def)
  have m: "magnitude (Vector3 1 0 0) = 1" by (simp add: magnitude_def)
  show ?thesis using constraint_on_surface [OF v m] v m by blast
qed

lemma foldl_min_inf:
  "\<forall>x \<in> set as. x = PInf \<Longrightarrow> foldl (\<lambda>m j. if np_less j m then j else m) m as = m"
proof (induction as arbitrary: m)
  case Nil
  show ?case by simp
next
  case (Cons x as)
  then show ?case by (cases m) auto
qed

lemma py_min_skip_inf:
  assumes inf: "\<forall>x \<in> set as. x = PInf"
    and ge: "\<forall>x \<in> set (bs @ cs). ge_zero x"
    and ne: "bs @ cs \<noteq> []"
  shows "py_min (bs @ as @ cs) = py_min (bs @ cs)"
proof (cases bs)
  case (Cons i bs')
  show ?thesis
    unfolding Cons py_min_def by (simp add: foldl_min_inf [OF inf])
next
  case Nil
  then obtain r cs' where cs: "cs = r # cs'" using ne by (cases cs) auto
  have gr: "ge_zero r" using ge cs by simp
  show ?thesis
  proof (cases as)
    case Nil
    then show ?thesis using \<open>bs = []\<close> by simp
  next
    case (Cons x as')
    have x: "x = PInf" and as': "\<forall>x \<in> set as'. x = PInf" using inf Cons by auto
    have "(if np_less r PInf then r else PInf) = r" using gr by (cases r) auto
    then show ?thesis
      unfolding \<open>bs = []\<close> Cons cs x py_min_def by (simp add: foldl_min_inf [OF as'])
  qed
qed

text \<open>The two candidates of an axis whose directional component is zero.\<close>

lemma axis_zero_candidates:
  assumes "0 \<le> lo" "0 \<le> hi"
  shows "filter ge_zero [np_div (- lo) 0, np_div hi 0] = (if 0 < hi then [PInf] else [])"
  using assms by (auto simp: np_div_def)

lemma axis_nonzero_candidates:
  assumes "0 \<le> lo" "0 \<le> hi" "q \<noteq> 0"
  shows "filter ge_zero [np_div (- lo) q, np_div hi q] \<noteq> []"
  using axis_has_candidate [OF assms] by auto

lemma axis_all_ge: "\<forall>x \<in> set (filter ge_zero xs). ge_zero x"
  by simp

lemma constraint_axes:
  "constraint zn d =
     py_min (filter ge_zero [np_div (- fst (zone_x zn)) (vec_x d), np_div (snd (zone_x zn)) (vec_x d)] @
             filter ge_zero [np_div (- fst (zone_y zn)) (vec_y d), np_div (snd (zone_y zn)) (vec_y d)] @
             filter ge_zero [np_div (- fst (zone_z zn)) (vec_z d), np_div (snd (zone_z zn)) (vec_z d)])"
  unfolding constraint_def constraints_def filter_append [symmetric] by simp

lemma zero_axis_inf:
  assumes "0 \<le> lo" "0 \<le> hi"
  shows "\<forall>x \<in> set (filter ge_zero [np_div (- lo) 0, np_div hi 0]). x = PInf"
  unfolding axis_zero_candidates [OF assms] by simp

lemma np_div_zero_cases: "np_div p 0 \<in> {PInf, NInf, NaN}"
  by (simp add: np_div_def)

text \<open>
  Claim C9. \<^verbatim>\<open>Zone.constraint\<close> raises only \<^verbatim>\<open>ValueError\<close>, and only when none
  of the six candidates passes \<^verbatim>\<open>i >= 0\<close>. For a zone with non-negative bounds and
  a direction with a non-zero component it does not raise and returns a finite value. An
  axis whose directional component is exactly zero gives two candidates that are infinite
  or NaN (the division does not raise) and contributes no constraint: the result is the
  minimum over the candidates of the other two axes.
\<close>

theorem constraint_no_error:
  "(\<forall>e. constraint zn d = Inl e \<longleftrightarrow>
          e = ValueError \<and> (\<forall>i \<in> set (constraints zn d). \<not> ge_zero i)) \<and>
   (valid_zone zn \<and> d \<noteq> Vector3 0 0 0 \<longrightarrow>
      (\<exists>c. constraint zn d = Inr (Fin c)) \<and>
      (vec_x d = 0 \<longrightarrow>
         set (take 2 (constraints zn d)) \<subseteq> {PInf, NInf, NaN} \<and>
         constraint zn d = py_min (filter ge_zero (drop 2 (constraints zn d)))) \<and>
      (vec_y d = 0 \<longrightarrow>
         set (take 2 (drop 2 (constraints zn d))) \<subseteq> {PInf, NInf, NaN} \<and>
         constraint zn d =
           py_min (filter ge_zero (take 2 (constraints zn d) @ drop 4 (constraints zn d)))) \<and>
      (vec_z d = 0 \<longrightarrow>
         set (drop 4 (constraints zn d)) \<subseteq> {PInf, NInf, NaN} \<and>
         constraint zn d = py_min (filter ge_zero (take 4 (constraints zn d)))))"
proof (intro conjI allI impI)
  fix e
  show "constraint zn d = Inl e \<longleftrightarrow>
          e = ValueError \<and> (\<forall>i \<in> set (constraints zn d). \<not> ge_zero i)"
    by (rule constraint_Inl)
next
  assume a: "valid_zone zn \<and> d \<noteq> Vector3 0 0 0"
  then have "vec_x d \<noteq> 0 \<or> vec_y d \<noteq> 0 \<or> vec_z d \<noteq> 0" by (cases d) auto
  from constraint_finite [OF conjunct1 [OF a] this]
  show "\<exists>c. constraint zn d = Inr (Fin c)" by blast
next
  assume "valid_zone zn \<and> d \<noteq> Vector3 0 0 0" and "vec_x d = 0"
  then show "set (take 2 (constraints zn d)) \<subseteq> {PInf, NInf, NaN}"
    using np_div_zero_cases by (simp add: constraints_def)
next
  assume "valid_zone zn \<and> d \<noteq> Vector3 0 0 0" and "vec_y d = 0"
  then show "set (take 2 (drop 2 (constraints zn d))) \<subseteq> {PInf, NInf, NaN}"
    using np_div_zero_cases by (simp add: constraints_def)
next
  assume "valid_zone zn \<and> d \<noteq> Vector3 0 0 0" and "vec_z d = 0"
  then show "set (drop 4 (constraints zn d)) \<subseteq> {PInf, NInf, NaN}"
    using np_div_zero_cases by (simp add: constraints_def)
next
  assume a: "valid_zone zn \<and> d \<noteq> Vector3 0 0 0" and x: "vec_x d = 0"
  have v: "0 \<le> fst (zone_x zn)" "0 \<le> snd (zone_x zn)" "0 \<le> fst (zone_y zn)"
    "0 \<le> snd (zone_y zn)" "0 \<le> fst (zone_z zn)" "0 \<le> snd (zone_z zn)"
    using a by (simp_all add: valid_zone_def)
  let ?Y = "filter ge_zero [np_div (- fst (zone_y zn)) (vec_y d), np_div (snd (zone_y zn)) (vec_y d)]"
  let ?Z = "filter ge_zero [np_div (- fst (zone_z zn)) (vec_z d), np_div (snd (zone_z zn)) (vec_z d)]"
  have "vec_y d \<noteq> 0 \<or> vec_z d \<noteq> 0" using a x by (cases d) auto
  then have ne: "[] @ ?Y @ ?Z \<noteq> []"
    using axis_nonzero_candidates [OF v(3) v(4)] axis_nonzero_candidates [OF v(5) v(6)]
    by (simp only: append_Nil append_is_Nil_conv) blast
  have ge: "\<forall>i \<in> set ([] @ ?Y @ ?Z). ge_zero i" by auto
  have "constraint zn d = py_min ([] @ ?Y @ ?Z)"
    unfolding constraint_axes x
    using py_min_skip_inf [OF zero_axis_inf [OF v(1) v(2)] ge ne] by simp
  then show "constraint zn d = py_min (filter ge_zero (drop 2 (constraints zn d)))"
    by (simp add: constraints_def)
next
  assume a: "valid_zone zn \<and> d \<noteq> Vector3 0 0 0" and y: "vec_y d = 0"
  have v: "0 \<le> fst (zone_x zn)" "0 \<le> snd (zone_x zn)" "0 \<le> fst (zone_y zn)"
    "0 \<le> snd (zone_y zn)" "0 \<le> fst (zone_z zn)" "0 \<le> snd (zone_z zn)"
    using a by (simp_all add: valid_zone_def)
  let ?X = "filter ge_zero [np_div (- fst (zone_x zn)) (vec_x d), np_div (snd (zone_x zn)) (vec_x d)]"
  let ?Z = "filter ge_zero [np_div (- fst (zone_z zn)) (vec_z d), np_div (snd (zone_z zn)) (vec_z d)]"
  have "vec_x d \<noteq> 0 \<or> vec_z d \<noteq> 0" using a y by (cases d) auto
  then have ne: "?X @ ?Z \<noteq> []"
    using axis_nonzero_candidates [OF v(1) v(2)] axis_nonzero_candidates [OF v(5) v(6)]
    by (simp only: append_is_Nil_conv) blast
  have ge: "\<forall>i \<in> set (?X @ ?Z). ge_zero i" by auto
  have "constraint zn d = py_min (?X @ ?Z)"
    unfolding constraint_axes y
    using py_min_skip_inf [OF zero_axis_inf [OF v(3) v(4)] ge ne] by simp
  then show "constraint zn d =
           py_min (filter ge_zero (take 2 (constraints zn d) @ drop 4 (constraints zn d)))"
    by (simp add: constraints_def)
next
  assume a: "valid_zone zn \<and> d \<noteq> Vector3 0 0 0" and z: "vec_z d = 0"
  have v: "0 \<le> fst (zone_x zn)" "0 \<le> snd (zone_x zn)" "0 \<le> fst (zone_y zn)"
    "0 \<le> snd (zone_y zn)" "0 \<le> fst (zone_z zn)" "0 \<le> snd (zone_z zn)"
    using a by (simp_all add: valid_zone_def)
  let ?X = "filter ge_zero [np_div (- fst (zone_x zn)) (vec_x d), np_div (snd (zone_x zn)) (vec_x d)]"
  let ?Y = "filter ge_zero [np_div (- fst (zone_y zn)) (vec_y d), np_div (snd (zone_y zn)) (vec_y d)]"
  have "vec_x d \<noteq> 0 \<or> vec_y d \<noteq> 0" using a z by (cases d) auto
  then have ne: "(?X @ ?Y) @ [] \<noteq> []"
    using axis_nonzero_candidates [OF v(1) v(2)] axis_nonzero_candidates [OF v(3) v(4)]
    by (simp only: append_Nil2 append_is_Nil_conv) blast
  have ge: "\<forall>i \<in> set ((?X @ ?Y) @ []). ge_zero i" by auto
  have "constraint zn d = py_min ((?X @ ?Y) @ [])"
    unfolding constraint_axes z
    using py_min_skip_inf [OF zero_axis_inf [OF v(5) v(6)] ge ne] by simp
  then show "constraint zn d = py_min (filter ge_zero (take 4 (constraints zn d)))"
    by (simp add: constraints_def)
qed

lemma demo_constraint: "constraint demo_zone (Vector3 1 0 0) = Inr (Fin 0.7)"
  by (simp add: constraint_def constraints_def py_min_def np_div_def demo_zone_def)

theorem constraint_no_error_witness:
  "valid_zone demo_zone \<and> Vector3 1 0 0 \<noteq> Vector3 0 0 0 \<and> Vector3 0 1 0 \<noteq> Vector3 0 0 0 \<and>
   vec_x (Vector3 0 1 0) = 0 \<and> vec_y (Vector3 1 0 0) = 0 \<and> vec_z (Vector3 1 0 0) = 0 \<and>
   constraint demo_zone (Vector3 1 0 0) = Inr (Fin 0.7) \<and>
   constraint demo_zone (Vector3 0 1 0) =
     py_min (filter ge_zero (drop 2 (constraints demo_zone (Vector3 0 1 0)))) \<and>
   constraint demo_zone (Vector3 1 0 0) =
     py_min (filter ge_zero (take 2 (constraints demo_zone (Vector3 1 0 0)) @
                             drop 4 (constraints demo_zone (Vector3 1 0 0)))) \<and>
   constraint demo_zone (Vector3 1 0 0) =
     py_min (filter ge_zero (take 4 (constraints demo_zone (Vector3 1 0 0))))"
proof -
  have v: "valid_zone demo_zone" by (simp add: valid_zone_def demo_zone_def)
  have n: "Vector3 1 0 0 \<noteq> Vector3 0 0 0" and n': "Vector3 0 1 0 \<noteq> Vector3 0 0 0"
    by simp_all
  have x: "vec_x (Vector3 0 1 0) = 0" and y: "vec_y (Vector3 1 0 0) = 0"
    and z: "vec_z (Vector3 1 0 0) = 0" by simp_all
  have a: "constraint demo_zone (Vector3 0 1 0) =
     py_min (filter ge_zero (drop 2 (constraints demo_zone (Vector3 0 1 0))))"
    using constraint_no_error [of demo_zone "Vector3 0 1 0"] v n' x by blast
  have b: "constraint demo_zone (Vector3 1 0 0) =
     py_min (filter ge_zero (take 2 (constraints demo_zone (Vector3 1 0 0)) @
                             drop 4 (constraints demo_zone (Vector3 1 0 0))))"
    using constraint_no_error [of demo_zone "Vector3 1 0 0"] v n y by blast
  have c: "constraint demo_zone (Vector3 1 0 0) =
     py_min (filter ge_zero (take 4 (constraints demo_zone (Vector3 1 0 0))))"
    using constraint_no_error [of demo_zone "Vector3 1 0 0"] v n z by blast
  show ?thesis using v n n' x y z demo_constraint a b c by blast
qed

section \<open>Properties of Vehicle.move\<close>

lemma constraint_result:
  assumes "constraint zn d = Inr c"
  shows "c = PInf \<or> (\<exists>r. c = Fin r \<and> 0 \<le> r)"
  using constraint_mem [OF assms] ge_zero_cases [of c] by blast

lemma np_clip_bounds:
  assumes "np_clip x lo hi = Fin a" and "lo \<le> hi"
  shows "lo \<le> a \<and> a \<le> hi"
  using assms by (cases x) auto

lemma accel_finite:
  assumes c: "c = PInf \<or> (\<exists>r. c = Fin r \<and> 0 \<le> r)" and k: "0 < k"
  shows "\<exists>a. np_clip (np_mul k (np_sub c s)) lo hi = Fin a \<and>
             ((c = PInf \<and> a = hi) \<or> (\<exists>r. c = Fin r \<and> a = min (max (k * (r - s)) lo) hi))"
  using c k by auto

lemma rotate_zero [simp]: "rotate d (0, 0, 0) = d"
  by (cases d) (simp add: rotate_def spinner_def mat_mul_def vec_mat_def vadd_def vscale_def)

text \<open>What \<open>move\<close> does once the constraint query has returned.\<close>

lemma move_Inl:
  assumes "constraint zn (rotate (veh_direction veh) ang) = Inl e"
  shows "move veh zn ang = (veh\<lparr>veh_direction := rotate (veh_direction veh) ang\<rparr>, Inl e)"
  using assms by (simp add: move_def)

lemma move_Fin:
  assumes c: "constraint zn (rotate (veh_direction veh) ang) = Inr c"
    and a: "np_clip (np_mul (2 / (veh_tick veh)\<^sup>2) (np_sub c (veh_speed veh * veh_tick veh)))
                (- min (veh_speed veh / veh_tick veh) (veh_a veh)) (veh_a veh) = Fin a"
  shows "move veh zn ang =
       (veh\<lparr>veh_direction := rotate (veh_direction veh) ang,
             veh_odometer := veh_odometer veh + fst (kinematics veh a),
             veh_position := vadd (veh_position veh)
                (vscale (rotate (veh_direction veh) ang) (fst (kinematics veh a))),
             veh_speed := snd (kinematics veh a)\<rparr>,
        Inr (fst (kinematics veh a)))"
  unfolding move_def kinematics_def Let_def using c a
  by (simp del: np_clip.simps np_mul.simps np_sub.simps)

lemma move_Inr:
  assumes v: "valid_vehicle veh"
    and c: "constraint zn (rotate (veh_direction veh) ang) = Inr c"
  shows "\<exists>a. np_clip (np_mul (2 / (veh_tick veh)\<^sup>2) (np_sub c (veh_speed veh * veh_tick veh)))
                (- min (veh_speed veh / veh_tick veh) (veh_a veh)) (veh_a veh) = Fin a \<and>
     ((c = PInf \<and> a = veh_a veh) \<or>
      (\<exists>r. c = Fin r \<and>
           a = min (max (2 / (veh_tick veh)\<^sup>2 * (r - veh_speed veh * veh_tick veh))
                        (- min (veh_speed veh / veh_tick veh) (veh_a veh))) (veh_a veh))) \<and>
     move veh zn ang =
       (veh\<lparr>veh_direction := rotate (veh_direction veh) ang,
             veh_odometer := veh_odometer veh + fst (kinematics veh a),
             veh_position := vadd (veh_position veh)
                (vscale (rotate (veh_direction veh) ang) (fst (kinematics veh a))),
             veh_speed := snd (kinematics veh a)\<rparr>,
        Inr (fst (kinematics veh a)))"
proof -
  have k: "0 < 2 / (veh_tick veh)\<^sup>2" using v by (simp add: valid_vehicle_def)
  from accel_finite [OF constraint_result [OF c] k]
  obtain a where a: "np_clip (np_mul (2 / (veh_tick veh)\<^sup>2) (np_sub c (veh_speed veh * veh_tick veh)))
                (- min (veh_speed veh / veh_tick veh) (veh_a veh)) (veh_a veh) = Fin a"
    and a': "(c = PInf \<and> a = veh_a veh) \<or>
      (\<exists>r. c = Fin r \<and>
           a = min (max (2 / (veh_tick veh)\<^sup>2 * (r - veh_speed veh * veh_tick veh))
                        (- min (veh_speed veh / veh_tick veh) (veh_a veh))) (veh_a veh))"
    by blast
  show ?thesis using a a' move_Fin [OF c a] by blast
qed

lemma move_never_nan:
  assumes "valid_vehicle veh"
  shows "snd (move veh zn ang) \<noteq> Inl NotANumber"
proof (cases "constraint zn (rotate (veh_direction veh) ang)")
  case (Inl e)
  then have "e = ValueError" using constraint_Inl by blast
  then show ?thesis using move_Inl [OF Inl] by simp
next
  case (Inr c)
  from move_Inr [OF assms Inr] obtain a where
    "move veh zn ang =
       (veh\<lparr>veh_direction := rotate (veh_direction veh) ang,
             veh_odometer := veh_odometer veh + fst (kinematics veh a),
             veh_position := vadd (veh_position veh)
                (vscale (rotate (veh_direction veh) ang) (fst (kinematics veh a))),
             veh_speed := snd (kinematics veh a)\<rparr>,
        Inr (fst (kinematics veh a)))" by blast
  then show ?thesis by simp
qed

lemma full_tick_distance:
  fixes vi a tick :: real
  assumes "0 \<le> vi" "0 < tick" "- (vi / tick) \<le> a"
  shows "0 \<le> vi * tick + 1 / 2 * a * tick\<^sup>2"
proof -
  have "- (vi / tick) * tick \<le> a * tick"
    using assms(2,3) by (intro mult_right_mono) simp_all
  then have "- vi \<le> a * tick" using assms(2) by simp
  then have "0 \<le> vi + 1 / 2 * (a * tick)" using assms(1) by simp
  then have "0 \<le> tick * (vi + 1 / 2 * (a * tick))" using assms(2) by simp
  also have "tick * (vi + 1 / 2 * (a * tick)) = vi * tick + 1 / 2 * a * tick\<^sup>2"
    by (simp add: power2_eq_square algebra_simps)
  finally show ?thesis .
qed

lemma cruise_distance:
  fixes vi a tick v t :: real
  assumes "0 \<le> vi" "0 < a" "0 < v" "0 \<le> t" "t < tick"
  shows "0 \<le> vi * t + 1 / 2 * a * t\<^sup>2 + v * (tick - t)"
proof -
  have "0 \<le> vi * t" using assms by simp
  moreover have "0 \<le> 1 / 2 * a * t\<^sup>2" using assms by simp
  moreover have "0 \<le> v * (tick - t)" using assms by simp
  ultimately show ?thesis by linarith
qed

lemma kinematics_cruise:
  assumes "a > 0" "\<bar>veh_v veh - veh_speed veh\<bar> / a < veh_tick veh"
  shows "kinematics veh a =
     (veh_speed veh * (\<bar>veh_v veh - veh_speed veh\<bar> / a) +
        1 / 2 * a * (\<bar>veh_v veh - veh_speed veh\<bar> / a)\<^sup>2 +
        veh_v veh * (veh_tick veh - \<bar>veh_v veh - veh_speed veh\<bar> / a),
      veh_v veh)"
  using assms by (simp add: kinematics_def Let_def)

lemma kinematics_full:
  assumes "\<not> (a > 0 \<and> \<bar>veh_v veh - veh_speed veh\<bar> / a < veh_tick veh)"
  shows "kinematics veh a =
     (veh_speed veh * veh_tick veh + 1 / 2 * a * (veh_tick veh)\<^sup>2,
      max (veh_speed veh + a * veh_tick veh) 0)"
  unfolding kinematics_def Let_def using assms by (simp only: if_False)

lemma kinematics_nonneg:
  assumes v: "valid_vehicle veh" and s: "0 \<le> veh_speed veh"
    and lo: "- (veh_speed veh / veh_tick veh) \<le> a"
  shows "0 \<le> fst (kinematics veh a) \<and> 0 \<le> snd (kinematics veh a)"
proof (cases "a > 0 \<and> \<bar>veh_v veh - veh_speed veh\<bar> / a < veh_tick veh")
  case True
  have pos: "0 < veh_v veh" using v by (simp add: valid_vehicle_def)
  have t0: "0 \<le> \<bar>veh_v veh - veh_speed veh\<bar> / a" using True by simp
  show ?thesis
    unfolding kinematics_cruise [OF conjunct1 [OF True] conjunct2 [OF True]] fst_conv snd_conv
    using cruise_distance [OF s conjunct1 [OF True] pos t0 conjunct2 [OF True]] pos by simp
next
  case False
  have pos: "0 < veh_tick veh" using v by (simp add: valid_vehicle_def)
  show ?thesis
    unfolding kinematics_full [OF False] fst_conv snd_conv
    using full_tick_distance [OF s pos lo] by simp
qed

text \<open>
  Claim C3. For a vehicle with speed \<open>\<ge> 0\<close> and any zone, after \<^verbatim>\<open>Vehicle.move\<close> the
  speed is \<open>\<ge> 0\<close> and the odometer is not smaller than before; when the call returns a
  distance, the distance is \<open>\<ge> 0\<close> and is what the odometer grew by. (When the zone query
  raises, speed and odometer are unchanged.)
\<close>

theorem move_speed_odometer:
  assumes v: "valid_vehicle veh" and s: "0 \<le> veh_speed veh"
  shows "0 \<le> veh_speed (fst (move veh zn ang)) \<and>
         veh_odometer veh \<le> veh_odometer (fst (move veh zn ang)) \<and>
         (\<forall>moved. snd (move veh zn ang) = Inr moved \<longrightarrow>
            0 \<le> moved \<and> veh_odometer (fst (move veh zn ang)) = veh_odometer veh + moved)"
proof (cases "constraint zn (rotate (veh_direction veh) ang)")
  case (Inl e)
  show ?thesis unfolding move_Inl [OF Inl] using s by simp
next
  case (Inr c)
  have pos: "0 < veh_a veh" "0 < veh_tick veh"
    using v by (simp_all add: valid_vehicle_def)
  let ?lo = "- min (veh_speed veh / veh_tick veh) (veh_a veh)"
  from move_Inr [OF v Inr] obtain a where
    clip: "np_clip (np_mul (2 / (veh_tick veh)\<^sup>2) (np_sub c (veh_speed veh * veh_tick veh)))
              ?lo (veh_a veh) = Fin a"
    and mv: "move veh zn ang =
       (veh\<lparr>veh_direction := rotate (veh_direction veh) ang,
             veh_odometer := veh_odometer veh + fst (kinematics veh a),
             veh_position := vadd (veh_position veh)
                (vscale (rotate (veh_direction veh) ang) (fst (kinematics veh a))),
             veh_speed := snd (kinematics veh a)\<rparr>,
        Inr (fst (kinematics veh a)))"
    by blast
  have "0 \<le> veh_speed veh / veh_tick veh" using s pos by simp
  then have lohi: "?lo \<le> veh_a veh" using pos by simp
  have lo: "?lo \<le> a" using np_clip_bounds [OF clip lohi] by simp
  have lo': "- (veh_speed veh / veh_tick veh) \<le> a" using lo by simp
  from kinematics_nonneg [OF v s lo'] show ?thesis unfolding mv by simp
qed

lemma demo_vehicle_valid: "valid_vehicle demo_vehicle"
  by (simp add: demo_vehicle_def new_vehicle_def valid_vehicle_def)

lemma demo_vehicle_fields:
  "veh_speed demo_vehicle = 0" "veh_direction demo_vehicle = Vector3 1 0 0"
  "veh_v demo_vehicle = 14" "veh_a demo_vehicle = 7" "veh_tick demo_vehicle = 1 / 10"
  "veh_odometer demo_vehicle = 0" "veh_priority demo_vehicle = 1"
  "veh_position demo_vehicle = Vector3 0 0 0" "veh_offline demo_vehicle = False"
  by (simp_all add: demo_vehicle_def new_vehicle_def)

lemma demo_move_result:
  "move demo_vehicle demo_zone (0, 0, 0) =
     (demo_vehicle\<lparr>veh_odometer := 7 / 200, veh_position := Vector3 (7 / 200) 0 0,
                   veh_speed := 7 / 10\<rparr>, Inr (7 / 200))"
  by (simp add: move_def Let_def demo_vehicle_def new_vehicle_def demo_zone_def constraint_def
      constraints_def py_min_def np_div_def vscale_def vadd_def power2_eq_square)

theorem move_speed_odometer_witness:
  "valid_vehicle demo_vehicle \<and> 0 \<le> veh_speed demo_vehicle \<and>
   snd (move demo_vehicle demo_zone (0, 0, 0)) = Inr (7 / 200) \<and>
   0 \<le> veh_speed (fst (move demo_vehicle demo_zone (0, 0, 0))) \<and>
   veh_odometer demo_vehicle \<le> veh_odometer (fst (move demo_vehicle demo_zone (0, 0, 0))) \<and>
   veh_odometer (fst (move demo_vehicle demo_zone (0, 0, 0))) =
     veh_odometer demo_vehicle + 7 / 200"
proof -
  have s: "0 \<le> veh_speed demo_vehicle" by (simp add: demo_vehicle_fields)
  have r: "snd (move demo_vehicle demo_zone (0, 0, 0)) = Inr (7 / 200)"
    by (simp add: demo_move_result)
  show ?thesis
    using move_speed_odometer [OF demo_vehicle_valid s, of demo_zone "(0, 0, 0)"]
      demo_vehicle_valid s r
    by blast
qed

lemma clip_interval_eq:
  "lo \<le> hi \<Longrightarrow> min (max x lo) hi = clip_interval lo hi x"
  by (auto simp: clip_interval_def)

text \<open>
  Claim C1. For a vehicle with speed \<open>vi \<ge> 0\<close> whose zone query returns the constraint
  \<open>c\<close> for the rotated direction, \<^verbatim>\<open>Vehicle.move\<close> returns a distance \<open>moved\<close>
  with: \<open>a_eff\<close> is \<open>a_raw = 2 / tick\<^sup>2 * (c - vi * tick)\<close> clipped to the interval
  \<open>[- min (vi / tick) a, a]\<close> (an infinite constraint gives \<open>a_eff = a\<close>); if
  \<open>a_eff > 0\<close> and \<open>t = \<bar>v - vi\<bar> / a_eff < tick\<close> then
  \<open>moved = (vi * t + 1/2 * a_eff * t\<^sup>2) + v * (tick - t)\<close> and the final speed is \<open>v\<close>;
  otherwise \<open>moved = vi * tick + 1/2 * a_eff * tick\<^sup>2\<close> and the final speed is
  \<open>max (vi + a_eff * tick) 0\<close>.
\<close>

theorem move_formula:
  assumes v: "valid_vehicle veh" and s: "0 \<le> veh_speed veh"
    and c: "constraint zn (rotate (veh_direction veh) ang) = Inr c"
  shows "\<exists>a_eff moved veh'.
     move veh zn ang = (veh', Inr moved) \<and>
     ((c = PInf \<and> a_eff = veh_a veh) \<or>
      (\<exists>r. c = Fin r \<and>
           a_eff = clip_interval (- min (veh_speed veh / veh_tick veh) (veh_a veh)) (veh_a veh)
                     (2 / (veh_tick veh)\<^sup>2 * (r - veh_speed veh * veh_tick veh)))) \<and>
     (if 0 < a_eff \<and> \<bar>veh_v veh - veh_speed veh\<bar> / a_eff < veh_tick veh
      then moved = (veh_speed veh * (\<bar>veh_v veh - veh_speed veh\<bar> / a_eff) +
                      1 / 2 * a_eff * (\<bar>veh_v veh - veh_speed veh\<bar> / a_eff)\<^sup>2) +
                   veh_v veh * (veh_tick veh - \<bar>veh_v veh - veh_speed veh\<bar> / a_eff) \<and>
           veh_speed veh' = veh_v veh
      else moved = veh_speed veh * veh_tick veh + 1 / 2 * a_eff * (veh_tick veh)\<^sup>2 \<and>
           veh_speed veh' = max (veh_speed veh + a_eff * veh_tick veh) 0)"
proof -
  have pos: "0 < veh_a veh" "0 < veh_tick veh"
    using v by (simp_all add: valid_vehicle_def)
  let ?lo = "- min (veh_speed veh / veh_tick veh) (veh_a veh)"
  have "0 \<le> veh_speed veh / veh_tick veh" using s pos by simp
  then have lohi: "?lo \<le> veh_a veh" using pos by simp
  from move_Inr [OF v c] obtain a where
    a: "(c = PInf \<and> a = veh_a veh) \<or>
      (\<exists>r. c = Fin r \<and>
           a = min (max (2 / (veh_tick veh)\<^sup>2 * (r - veh_speed veh * veh_tick veh)) ?lo)
                   (veh_a veh))"
    and mv: "move veh zn ang =
       (veh\<lparr>veh_direction := rotate (veh_direction veh) ang,
             veh_odometer := veh_odometer veh + fst (kinematics veh a),
             veh_position := vadd (veh_position veh)
                (vscale (rotate (veh_direction veh) ang) (fst (kinematics veh a))),
             veh_speed := snd (kinematics veh a)\<rparr>,
        Inr (fst (kinematics veh a)))"
    by blast
  have a': "(c = PInf \<and> a = veh_a veh) \<or>
      (\<exists>r. c = Fin r \<and>
           a = clip_interval ?lo (veh_a veh)
                 (2 / (veh_tick veh)\<^sup>2 * (r - veh_speed veh * veh_tick veh)))"
    using a unfolding clip_interval_eq [OF lohi] .
  have k: "if 0 < a \<and> \<bar>veh_v veh - veh_speed veh\<bar> / a < veh_tick veh
      then fst (kinematics veh a) =
             (veh_speed veh * (\<bar>veh_v veh - veh_speed veh\<bar> / a) +
                1 / 2 * a * (\<bar>veh_v veh - veh_speed veh\<bar> / a)\<^sup>2) +
             veh_v veh * (veh_tick veh - \<bar>veh_v veh - veh_speed veh\<bar> / a) \<and>
           snd (kinematics veh a) = veh_v veh
      else fst (kinematics veh a) =
             veh_speed veh * veh_tick veh + 1 / 2 * a * (veh_tick veh)\<^sup>2 \<and>
           snd (kinematics veh a) = max (veh_speed veh + a * veh_tick veh) 0"
  proof (cases "0 < a \<and> \<bar>veh_v veh - veh_speed veh\<bar> / a < veh_tick veh")
    case True
    show ?thesis
      unfolding kinematics_cruise [OF conjunct1 [OF True] conjunct2 [OF True]]
        if_P [OF True] fst_conv snd_conv
      by simp
  next
    case False
    show ?thesis
      unfolding kinematics_full [OF False] if_not_P [OF False] fst_conv snd_conv
      by simp
  qed
  have sp: "veh_speed (fst (move veh zn ang)) = snd (kinematics veh a)"
    unfolding mv by simp
  show ?thesis
    apply (rule exI [of _ a])
    apply (rule exI [of _ "fst (kinematics veh a)"])
    apply (rule exI [of _ "fst (move veh zn ang)"])
    apply (intro conjI)
      apply (simp add: mv)
     apply (rule a')
    apply (simp only: sp)
    apply (rule k)
    done
qed

lemma demo_move_constraint:
  "constraint demo_zone (rotate (veh_direction demo_vehicle) (0, 0, 0)) = Inr (Fin (7 / 10))"
  using demo_constraint by (simp add: demo_vehicle_fields)

theorem move_formula_witness:
  "valid_vehicle demo_vehicle \<and> 0 \<le> veh_speed demo_vehicle \<and>
   constraint demo_zone (rotate (veh_direction demo_vehicle) (0, 0, 0)) = Inr (Fin (7 / 10)) \<and>
   (\<exists>veh'. move demo_vehicle demo_zone (0, 0, 0) = (veh', Inr (7 / 200)) \<and>
           veh_speed veh' = 7 / 10)"
proof -
  have s: "0 \<le> veh_speed demo_vehicle" by (simp add: demo_vehicle_fields)
  from move_formula [OF demo_vehicle_valid s demo_move_constraint]
  obtain a_eff moved veh' where
    mv: "move demo_vehicle demo_zone (0, 0, 0) = (veh', Inr moved)"
    and a0: "(Fin (7 / 10) = PInf \<and> a_eff = veh_a demo_vehicle) \<or>
      (\<exists>r. Fin (7 / 10) = Fin r \<and>
           a_eff = clip_interval (- min (veh_speed demo_vehicle / veh_tick demo_vehicle)
                 (veh_a demo_vehicle)) (veh_a demo_vehicle)
                     (2 / (veh_tick demo_vehicle)\<^sup>2 *
                        (r - veh_speed demo_vehicle * veh_tick demo_vehicle)))"
    and r: "if 0 < a_eff \<and> \<bar>veh_v demo_vehicle - veh_speed demo_vehicle\<bar> / a_eff
                  < veh_tick demo_vehicle
      then moved = (veh_speed demo_vehicle *
                      (\<bar>veh_v demo_vehicle - veh_speed demo_vehicle\<bar> / a_eff) +
                      1 / 2 * a_eff *
                      (\<bar>veh_v demo_vehicle - veh_speed demo_vehicle\<bar> / a_eff)\<^sup>2) +
                   veh_v demo_vehicle *
                     (veh_tick demo_vehicle -
                      \<bar>veh_v demo_vehicle - veh_speed demo_vehicle\<bar> / a_eff) \<and>
           veh_speed veh' = veh_v demo_vehicle
      else moved = veh_speed demo_vehicle * veh_tick demo_vehicle +
                   1 / 2 * a_eff * (veh_tick demo_vehicle)\<^sup>2 \<and>
           veh_speed veh' = max (veh_speed demo_vehicle + a_eff * veh_tick demo_vehicle) 0"
    by blast
  have a: "a_eff = clip_interval (- min (veh_speed demo_vehicle / veh_tick demo_vehicle)
                 (veh_a demo_vehicle)) (veh_a demo_vehicle)
                     (2 / (veh_tick demo_vehicle)\<^sup>2 *
                        (7 / 10 - veh_speed demo_vehicle * veh_tick demo_vehicle))"
    using a0 by (metis npfloat.inject npfloat.distinct(1))
  have a7: "a_eff = 7" using a by (simp add: demo_vehicle_fields clip_interval_def power2_eq_square)
  have "moved = 7 / 200 \<and> veh_speed veh' = 7 / 10"
    using r unfolding a7 by (simp add: demo_vehicle_fields power2_eq_square)
  then show ?thesis using mv demo_vehicle_valid s demo_move_constraint by simp
qed

section \<open>Properties of Scenario.step\<close>

subsection \<open>The loop bodies\<close>

lemma see_vehicle_obs: "obs (see_vehicle i v st other) = obs st @ other_fields v other"
  by (simp add: see_vehicle_def other_fields_def Let_def vec_t_def vsub_def)

lemma see_human_obs: "obs (see_human i v st h) = obs st @ human_fields v h"
  by (simp add: see_human_def human_fields_def Let_def vec_t_def vsub_def)

lemma see_vehicle_done: "is_done (see_vehicle i v st other) = is_done st"
  by (simp add: see_vehicle_def Let_def)

lemma see_human_done: "is_done (see_human i v st h) = is_done st"
  by (simp add: see_human_def Let_def)

text \<open>Once a warning or a crash is recorded, a pass of either loop only extends \<open>obs\<close>.\<close>

lemma see_vehicle_stuck:
  assumes "warning st \<noteq> 0 \<or> crashed st"
  shows "see_vehicle i v st other = st\<lparr>obs := obs st @ other_fields v other\<rparr>"
  using assms by (simp add: see_vehicle_def other_fields_def Let_def vec_t_def vsub_def)

lemma see_human_stuck:
  assumes "warning st \<noteq> 0 \<or> crashed st"
  shows "see_human i v st h = st\<lparr>obs := obs st @ human_fields v h\<rparr>"
  using assms by (simp add: see_human_def human_fields_def Let_def vec_t_def vsub_def)

lemma foldl_see_vehicle_obs:
  "obs (foldl (see_vehicle i v) st os) = obs st @ concat (map (other_fields v) os)"
  by (induction os arbitrary: st) (simp_all add: see_vehicle_obs)

lemma foldl_see_human_obs:
  "obs (foldl (see_human i v) st hs) = obs st @ concat (map (human_fields v) hs)"
  by (induction hs arbitrary: st) (simp_all add: see_human_obs)

lemma foldl_see_vehicle_done: "is_done (foldl (see_vehicle i v) st os) = is_done st"
  by (induction os arbitrary: st) (simp_all add: see_vehicle_done)

lemma foldl_see_human_done: "is_done (foldl (see_human i v) st hs) = is_done st"
  by (induction hs arbitrary: st) (simp_all add: see_human_done)

lemma foldl_see_vehicle_stuck:
  assumes "warning st \<noteq> 0 \<or> crashed st"
  shows "foldl (see_vehicle i v) st os = st\<lparr>obs := obs st @ concat (map (other_fields v) os)\<rparr>"
  using assms
proof (induction os arbitrary: st)
  case Nil
  show ?case by simp
next
  case (Cons x os)
  have "warning (st\<lparr>obs := obs st @ other_fields v x\<rparr>) \<noteq> 0 \<or>
        crashed (st\<lparr>obs := obs st @ other_fields v x\<rparr>)"
    using Cons.prems by simp
  from Cons.IH [OF this] show ?case
    by (simp add: see_vehicle_stuck [OF Cons.prems])
qed

lemma foldl_see_human_stuck:
  assumes "warning st \<noteq> 0 \<or> crashed st"
  shows "foldl (see_human i v) st hs = st\<lparr>obs := obs st @ concat (map (human_fields v) hs)\<rparr>"
  using assms
proof (induction hs arbitrary: st)
  case Nil
  show ?case by simp
next
  case (Cons x hs)
  have "warning (st\<lparr>obs := obs st @ human_fields v x\<rparr>) \<noteq> 0 \<or>
        crashed (st\<lparr>obs := obs st @ human_fields v x\<rparr>)"
    using Cons.prems by simp
  from Cons.IH [OF this] show ?case
    by (simp add: see_human_stuck [OF Cons.prems])
qed

lemma init_locals_inv: "scan_inv i v (init_locals i v rewards)"
  by (simp add: scan_inv_def init_locals_def Let_def)

lemma see_vehicle_inv:
  assumes "scan_inv i v st"
  shows "scan_inv i v (see_vehicle i v st other)"
proof (cases "warning st \<noteq> 0 \<or> crashed st")
  case True
  show ?thesis unfolding see_vehicle_stuck [OF True] using assms by (simp add: scan_inv_def)
next
  case False
  then show ?thesis using assms by (auto simp: scan_inv_def see_vehicle_def Let_def)
qed

lemma see_human_inv:
  assumes "scan_inv i v st"
  shows "scan_inv i v (see_human i v st h)"
proof (cases "warning st \<noteq> 0 \<or> crashed st")
  case True
  show ?thesis unfolding see_human_stuck [OF True] using assms by (simp add: scan_inv_def)
next
  case False
  then show ?thesis using assms by (auto simp: scan_inv_def see_human_def Let_def)
qed

lemma foldl_see_vehicle_inv:
  assumes "scan_inv i v st"
  shows "scan_inv i v (foldl (see_vehicle i v) st os)"
  using assms by (induction os arbitrary: st) (simp_all add: see_vehicle_inv)

lemma foldl_see_human_inv:
  assumes "scan_inv i v st"
  shows "scan_inv i v (foldl (see_human i v) st hs)"
  using assms by (induction hs arbitrary: st) (simp_all add: see_human_inv)

lemma scan_invariant: "scan_inv i (vs ! i) (scan i vs hs rewards)"
  unfolding scan_def Let_def
  by (intro foldl_see_human_inv foldl_see_vehicle_inv init_locals_inv)

lemma init_locals_obs:
  "obs (init_locals i v rewards) =
     [Num (vec_x (veh_direction v)), Num (vec_y (veh_direction v)),
      Num (vec_z (veh_direction v)), Num (veh_speed v)]"
  by (simp add: init_locals_def Let_def vec_t_def)

lemma init_locals_done: "is_done (init_locals i v rewards) = (20 \<le> veh_odometer v)"
  by (simp add: init_locals_def Let_def)

lemma scan_obs: "obs (scan i vs hs rewards) = obs_layout i vs hs"
  by (simp add: scan_def Let_def foldl_see_human_obs foldl_see_vehicle_obs init_locals_obs
      obs_layout_def)

lemma scan_done: "is_done (scan i vs hs rewards) = (20 \<le> veh_odometer (vs ! i))"
  by (simp add: scan_def Let_def foldl_see_human_done foldl_see_vehicle_done init_locals_done)

subsection \<open>One pass of the second loop\<close>

lemma observe_in_range:
  "observe i vs hs rewards =
     (if i < length rewards then Inr (yield_of i vs hs rewards, marks_of i vs hs rewards)
      else Inl IndexError)"
  by (simp add: observe_def yield_of_def marks_of_def Let_def)

lemma length_other_fields: "length (other_fields v other) = 8"
  by (simp add: other_fields_def)

lemma length_human_fields: "length (human_fields v h) = 4"
  by (simp add: human_fields_def)

lemma length_concat_const:
  assumes "\<And>x. length (f x) = n"
  shows "length (concat (map f xs)) = n * length xs"
  by (induction xs) (simp_all add: assms)

lemma length_obs_layout:
  assumes "i < length vs"
  shows "length (obs_layout i vs hs) = 4 + 8 * (length vs - 1) + 4 * length hs"
proof -
  have "length (take i vs @ drop (Suc i) vs) = length vs - 1" using assms by auto
  then have a: "length (concat (map (other_fields (vs ! i)) (take i vs @ drop (Suc i) vs))) =
      8 * (length vs - 1)"
    using length_concat_const [of "other_fields (vs ! i)" 8, OF length_other_fields] by simp
  have b: "length (concat (map (human_fields (vs ! i)) hs)) = 4 * length hs"
    using length_concat_const [of "human_fields (vs ! i)" 4, OF length_human_fields] by simp
  show ?thesis unfolding obs_layout_def length_append a b by simp
qed

lemma dim_nat:
  assumes "i < length vs"
  shows "nat (4 + 8 * (int (length vs) - 1) + 4 * int (length hs)) =
         4 + 8 * (length vs - 1) + 4 * length hs"
  using assms by (cases vs) (simp_all add: nat_add_distrib nat_mult_distrib)

lemma yield_of_obs:
  "fst (yield_of i vs hs rewards) =
     (if veh_offline (vs ! i)
      then replicate (nat (4 + 8 * (int (length vs) - 1) + 4 * int (length hs))) (Num 0)
      else obs_layout i vs hs)"
  by (simp add: yield_of_def Let_def scan_obs)

lemma length_yield_of:
  assumes "i < length vs"
  shows "length (fst (yield_of i vs hs rewards)) = 4 + 8 * (length vs - 1) + 4 * length hs"
  unfolding yield_of_obs dim_nat [OF assms] by (simp add: length_obs_layout [OF assms])

lemma marks_of_subset: "set (marks_of i vs hs rewards) \<subseteq> {i}"
  using scan_invariant [of i vs hs rewards] by (auto simp: marks_of_def scan_inv_def split: if_splits)

subsection \<open>The second loop\<close>

lemma phase2_result:
  "phase2 vs hs rewards js off =
     (map (\<lambda>i. yield_of i vs hs rewards) (takeWhile (\<lambda>i. i < length rewards) js),
      if length (takeWhile (\<lambda>i. i < length rewards) js) < length js
      then Some IndexError else None,
      off @ concat (map (\<lambda>i. marks_of i vs hs rewards)
                       (takeWhile (\<lambda>i. i < length rewards) js)))"
proof (induction js arbitrary: off)
  case Nil
  show ?case by simp
next
  case (Cons j js)
  show ?case
  proof (cases "j < length rewards")
    case True
    then show ?thesis by (simp add: observe_in_range Cons.IH)
  next
    case False
    then show ?thesis by (simp add: observe_in_range)
  qed
qed

lemma takeWhile_snoc_stop: "\<not> P b \<Longrightarrow> takeWhile P (xs @ [b]) = takeWhile P xs"
  by (induction xs) simp_all

lemma takeWhile_upt: "takeWhile (\<lambda>i. i < m) [a..<b] = [a..<min m b]"
proof (induction b)
  case 0
  show ?case by simp
next
  case (Suc b)
  show ?case
  proof (cases "a \<le> b")
    case True
    note ab = this
    show ?thesis
    proof (cases "b < m")
      case True
      then have "\<forall>x \<in> set [a..<Suc b]. x < m" by auto
      then have "takeWhile (\<lambda>i. i < m) [a..<Suc b] = [a..<Suc b]"
        by (simp only: takeWhile_eq_all_conv)
      moreover have "min m (Suc b) = Suc b" using True by simp
      ultimately show ?thesis by (simp only:)
    next
      case False
      then have m: "min m b = m" "min m (Suc b) = m" by simp_all
      have u: "[a..<Suc b] = [a..<b] @ [b]" using ab by simp
      have "takeWhile (\<lambda>i. i < m) ([a..<b] @ [b]) = takeWhile (\<lambda>i. i < m) [a..<b]"
        using False by (rule takeWhile_snoc_stop)
      then show ?thesis unfolding u m using Suc.IH m by (simp only:)
    qed
  next
    case False
    then show ?thesis by simp
  qed
qed

lemma phase2_upt:
  assumes "length rewards \<le> n"
  shows "phase2 vs hs rewards [0..<n] [] =
     (map (\<lambda>i. yield_of i vs hs rewards) [0..<length rewards],
      if length rewards < n then Some IndexError else None,
      concat (map (\<lambda>i. marks_of i vs hs rewards) [0..<length rewards]))"
  using assms by (simp add: phase2_result takeWhile_upt min_def)

subsection \<open>The first loop\<close>

lemma move_frame:
  "veh_offline (fst (move veh zn ang)) = veh_offline veh \<and>
   veh_v (fst (move veh zn ang)) = veh_v veh \<and>
   veh_a (fst (move veh zn ang)) = veh_a veh \<and>
   veh_priority (fst (move veh zn ang)) = veh_priority veh \<and>
   veh_tick (fst (move veh zn ang)) = veh_tick veh"
  unfolding move_def Let_def
  by (simp split: sum.splits npfloat.splits prod.splits)

lemma phase1_offline:
  assumes "veh_offline vehicle"
  shows "phase1 (vehicle # vs) (zn # zs) draws k =
     (vehicle # fst (phase1 vs zs draws k),
      0 # fst (snd (phase1 vs zs draws k)),
      fst (snd (snd (phase1 vs zs draws k))),
      snd (snd (snd (phase1 vs zs draws k))))"
  using assms by (simp add: case_prod_beta)

lemma phase1_raise:
  assumes "\<not> veh_offline vehicle" and "move vehicle zn (draws k) = (vehicle', Inl e)"
  shows "phase1 (vehicle # vs) (zn # zs) draws k = (vehicle' # vs, [], Suc k, Some e)"
  using assms by simp

lemma phase1_moved:
  assumes "\<not> veh_offline vehicle" and "move vehicle zn (draws k) = (vehicle', Inr moved)"
  shows "phase1 (vehicle # vs) (zn # zs) draws k =
     (vehicle' # fst (phase1 vs zs draws (Suc k)),
      (moved * veh_priority vehicle') # fst (snd (phase1 vs zs draws (Suc k))),
      fst (snd (snd (phase1 vs zs draws (Suc k)))),
      snd (snd (snd (phase1 vs zs draws (Suc k)))))"
  using assms by (simp add: case_prod_beta)

lemma phase1_cases [consumes 0, case_names offline raise moved]:
  assumes "veh_offline vehicle \<Longrightarrow> P"
    and "\<And>vehicle' e. \<not> veh_offline vehicle \<Longrightarrow>
           move vehicle zn ang = (vehicle', Inl e) \<Longrightarrow> P"
    and "\<And>vehicle' moved. \<not> veh_offline vehicle \<Longrightarrow>
           move vehicle zn ang = (vehicle', Inr moved) \<Longrightarrow> P"
  shows P
proof (cases "veh_offline vehicle")
  case True
  then show ?thesis by (rule assms(1))
next
  case False
  obtain vehicle' res where mv: "move vehicle zn ang = (vehicle', res)"
    by (cases "move vehicle zn ang")
  show ?thesis
  proof (cases res)
    case (Inl e)
    show ?thesis using assms(2) [OF False] mv Inl by simp
  next
    case (Inr moved)
    show ?thesis using assms(3) [OF False] mv Inr by simp
  qed
qed

lemma phase1_length: "length (fst (phase1 vs zs draws k)) = length vs"
proof (induction vs zs draws k rule: phase1.induct)
  case (3 vehicle vs zn zs draws k)
  show ?case
  proof (cases rule: phase1_cases [where vehicle = vehicle and zn = zn and ang = "draws k"])
    case offline
    show ?thesis unfolding phase1_offline [OF offline] using "3.IH"(1) [OF offline] by simp
  next
    case (raise vehicle' e)
    show ?thesis unfolding phase1_raise [where draws = draws and k = k, OF raise] by simp
  next
    case (moved vehicle' d)
    show ?thesis unfolding phase1_moved [where draws = draws and k = k, OF moved]
      using "3.IH"(2) [OF moved(1) moved(2) [symmetric] refl] by simp
  qed
qed simp_all

lemma phase1_frame:
  "i < length vs \<Longrightarrow>
     veh_offline (fst (phase1 vs zs draws k) ! i) = veh_offline (vs ! i) \<and>
     veh_v (fst (phase1 vs zs draws k) ! i) = veh_v (vs ! i) \<and>
     (veh_offline (vs ! i) \<longrightarrow> fst (phase1 vs zs draws k) ! i = vs ! i)"
proof (induction vs zs draws k arbitrary: i rule: phase1.induct)
  case (3 vehicle vs zn zs draws k)
  show ?case
  proof (cases rule: phase1_cases [where vehicle = vehicle and zn = zn and ang = "draws k"])
    case offline
    show ?thesis
    proof (cases i)
      case 0
      then show ?thesis unfolding phase1_offline [OF offline] by simp
    next
      case (Suc j)
      then have "j < length vs" using "3.prems" by simp
      from "3.IH"(1) [OF offline this] show ?thesis
        unfolding phase1_offline [OF offline] Suc by simp
    qed
  next
    case (raise vehicle' e)
    have fr: "veh_offline vehicle' = veh_offline vehicle \<and> veh_v vehicle' = veh_v vehicle"
      using move_frame [of vehicle zn "draws k"] raise(2) by simp
    show ?thesis unfolding phase1_raise [where draws = draws and k = k, OF raise] using fr raise(1) by (cases i) simp_all
  next
    case (moved vehicle' d)
    have fr: "veh_offline vehicle' = veh_offline vehicle \<and> veh_v vehicle' = veh_v vehicle"
      using move_frame [of vehicle zn "draws k"] moved(2) by simp
    show ?thesis
    proof (cases i)
      case 0
      then show ?thesis unfolding phase1_moved [where draws = draws and k = k, OF moved] using fr moved(1) by simp
    next
      case (Suc j)
      then have "j < length vs" using "3.prems" by simp
      from "3.IH"(2) [OF moved(1) moved(2) [symmetric] refl this] show ?thesis
        unfolding phase1_moved [where draws = draws and k = k, OF moved] Suc by simp
    qed
  qed
qed simp_all

text \<open>When no move raises, \<^verbatim>\<open>rewards\<close> has one entry per pair that \<^verbatim>\<open>zip\<close> made.\<close>

lemma phase1_rewards_length:
  "snd (snd (snd (phase1 vs zs draws k))) = None \<Longrightarrow>
     length (fst (snd (phase1 vs zs draws k))) = min (length vs) (length zs)"
proof (induction vs zs draws k rule: phase1.induct)
  case (3 vehicle vs zn zs draws k)
  show ?case
  proof (cases rule: phase1_cases [where vehicle = vehicle and zn = zn and ang = "draws k"])
    case offline
    show ?thesis using "3.prems" "3.IH"(1) [OF offline]
      unfolding phase1_offline [OF offline] by simp
  next
    case (raise vehicle' e)
    show ?thesis using "3.prems" unfolding phase1_raise [where draws = draws and k = k, OF raise] by simp
  next
    case (moved vehicle' d)
    show ?thesis using "3.prems" "3.IH"(2) [OF moved(1) moved(2) [symmetric] refl]
      unfolding phase1_moved [where draws = draws and k = k, OF moved] by simp
  qed
qed simp_all

lemma phase1_reward_offline:
  "i < length (fst (snd (phase1 vs zs draws k))) \<Longrightarrow> i < length vs \<Longrightarrow>
   veh_offline (vs ! i) \<Longrightarrow> fst (snd (phase1 vs zs draws k)) ! i = 0"
proof (induction vs zs draws k arbitrary: i rule: phase1.induct)
  case (3 vehicle vs zn zs draws k)
  show ?case
  proof (cases rule: phase1_cases [where vehicle = vehicle and zn = zn and ang = "draws k"])
    case offline
    show ?thesis
    proof (cases i)
      case 0
      then show ?thesis unfolding phase1_offline [OF offline] by simp
    next
      case (Suc j)
      have "j < length (fst (snd (phase1 vs zs draws k)))" "j < length vs" "veh_offline (vs ! j)"
        using "3.prems" unfolding phase1_offline [OF offline] Suc by simp_all
      from "3.IH"(1) [OF offline this] show ?thesis
        unfolding phase1_offline [OF offline] Suc by simp
    qed
  next
    case (raise vehicle' e)
    show ?thesis using "3.prems"(1) unfolding phase1_raise [where draws = draws and k = k, OF raise] by simp
  next
    case (moved vehicle' d)
    show ?thesis
    proof (cases i)
      case 0
      then show ?thesis using "3.prems"(3) moved(1) by simp
    next
      case (Suc j)
      have "j < length (fst (snd (phase1 vs zs draws (Suc k))))" "j < length vs"
        "veh_offline (vs ! j)"
        using "3.prems" unfolding phase1_moved [where draws = draws and k = k, OF moved] Suc by simp_all
      from "3.IH"(2) [OF moved(1) moved(2) [symmetric] refl this] show ?thesis
        unfolding phase1_moved [where draws = draws and k = k, OF moved] Suc by simp
    qed
  qed
qed simp_all

text \<open>The vehicles that \<^verbatim>\<open>zip\<close> pairs with no zone are left as they are.\<close>

lemma phase1_trailing:
  "drop (length zs) (fst (phase1 vs zs draws k)) = drop (length zs) vs"
proof (induction vs zs draws k rule: phase1.induct)
  case (3 vehicle vs zn zs draws k)
  show ?case
  proof (cases rule: phase1_cases [where vehicle = vehicle and zn = zn and ang = "draws k"])
    case offline
    show ?thesis unfolding phase1_offline [OF offline] using "3.IH"(1) [OF offline] by simp
  next
    case (raise vehicle' e)
    show ?thesis unfolding phase1_raise [where draws = draws and k = k, OF raise] by simp
  next
    case (moved vehicle' d)
    show ?thesis unfolding phase1_moved [where draws = draws and k = k, OF moved]
      using "3.IH"(2) [OF moved(1) moved(2) [symmetric] refl] by simp
  qed
qed simp_all

lemma phase1_no_index_error: "snd (snd (snd (phase1 vs zs draws k))) \<noteq> Some IndexError"
proof (induction vs zs draws k rule: phase1.induct)
  case (3 vehicle vs zn zs draws k)
  show ?case
  proof (cases rule: phase1_cases [where vehicle = vehicle and zn = zn and ang = "draws k"])
    case offline
    show ?thesis unfolding phase1_offline [OF offline] using "3.IH"(1) [OF offline] by simp
  next
    case (raise vehicle' e)
    have "e \<noteq> IndexError"
    proof (cases "constraint zn (rotate (veh_direction vehicle) (draws k))")
      case (Inl e')
      then have "e' = ValueError" using constraint_Inl by blast
      then show ?thesis using move_Inl [OF Inl] raise(2) by simp
    next
      case (Inr c)
      then show ?thesis using raise(2)
        by (auto simp: move_def Let_def split: npfloat.splits prod.splits)
    qed
    then show ?thesis unfolding phase1_raise [where draws = draws and k = k, OF raise] by simp
  next
    case (moved vehicle' d)
    show ?thesis unfolding phase1_moved [where draws = draws and k = k, OF moved]
      using "3.IH"(2) [OF moved(1) moved(2) [symmetric] refl] by simp
  qed
qed simp_all

subsection \<open>The late update\<close>

lemma length_late_update: "length (late_update off vs) = length vs"
  unfolding late_update_def by (induction off arbitrary: vs) simp_all

lemma late_update_nth:
  "i < length vs \<Longrightarrow>
     late_update off vs ! i =
       (if i \<in> set off then (vs ! i)\<lparr>veh_offline := True\<rparr> else vs ! i)"
proof (induction off arbitrary: vs)
  case Nil
  show ?case by (simp add: late_update_def)
next
  case (Cons j off)
  let ?ws = "vs[j := (vs ! j)\<lparr>veh_offline := True\<rparr>]"
  have l: "i < length ?ws" using Cons.prems by simp
  have step: "late_update (j # off) vs = late_update off ?ws"
    by (simp add: late_update_def)
  have w: "?ws ! i = (if i = j then (vs ! i)\<lparr>veh_offline := True\<rparr> else vs ! i)"
    using Cons.prems by (simp add: nth_list_update)
  show ?case unfolding step Cons.IH [OF l] w by simp
qed

lemma length_humans_move: "length (humans_move hs draws k) = length hs"
  by (induction hs arbitrary: k) simp_all

subsection \<open>The whole step\<close>

lemma phase1_result_props:
  assumes "phase1 vs zs draws k = (vs1, rewards, k', err)"
  shows "length vs1 = length vs"
    and "err = None \<Longrightarrow> length rewards = min (length vs) (length zs)"
    and "err \<noteq> Some IndexError"
    and "drop (length zs) vs1 = drop (length zs) vs"
    and "\<And>i. i < length vs \<Longrightarrow>
           veh_offline (vs1 ! i) = veh_offline (vs ! i) \<and> veh_v (vs1 ! i) = veh_v (vs ! i) \<and>
           (veh_offline (vs ! i) \<longrightarrow> vs1 ! i = vs ! i)"
    and "\<And>i. i < length rewards \<Longrightarrow> i < length vs \<Longrightarrow> veh_offline (vs ! i) \<Longrightarrow>
           rewards ! i = 0"
proof -
  show "length vs1 = length vs" using phase1_length [of vs zs draws k] assms by simp
  show "err = None \<Longrightarrow> length rewards = min (length vs) (length zs)"
    using phase1_rewards_length [of vs zs draws k] assms by simp
  show "err \<noteq> Some IndexError" using phase1_no_index_error [of vs zs draws k] assms by simp
  show "drop (length zs) vs1 = drop (length zs) vs"
    using phase1_trailing [of zs vs draws k] assms by simp
  show "\<And>i. i < length vs \<Longrightarrow>
           veh_offline (vs1 ! i) = veh_offline (vs ! i) \<and> veh_v (vs1 ! i) = veh_v (vs ! i) \<and>
           (veh_offline (vs ! i) \<longrightarrow> vs1 ! i = vs ! i)"
    using phase1_frame [of _ vs zs draws k] assms by simp
  show "\<And>i. i < length rewards \<Longrightarrow> i < length vs \<Longrightarrow> veh_offline (vs ! i) \<Longrightarrow>
           rewards ! i = 0"
    using phase1_reward_offline [of _ vs zs draws k] assms by simp
qed

lemma step_raise:
  assumes "phase1 (vehicles s) zones draws 0 = (vs1, rewards, k, Some e)"
  shows "step s zones draws =
     \<lparr>yielded = [], raised = Some e, final = s\<lparr>elapsed := elapsed s + 1, vehicles := vs1\<rparr>\<rparr>"
  using assms by (simp add: step_def Let_def)

lemma step_ok:
  assumes p1: "phase1 (vehicles s) zones draws 0 = (vs1, rewards, k, None)"
  shows "step s zones draws =
     \<lparr>yielded = map (\<lambda>i. yield_of i vs1 (humans_move (humans s) draws k) rewards)
                   [0..<length rewards],
      raised = (if length rewards < length vs1 then Some IndexError else None),
      final = s\<lparr>elapsed := elapsed s + 1,
                vehicles :=
                  (if length rewards < length vs1 then vs1
                   else late_update
                     (concat (map (\<lambda>i. marks_of i vs1 (humans_move (humans s) draws k) rewards)
                        [0..<length rewards])) vs1),
                humans := humans_move (humans s) draws k\<rparr>\<rparr>"
proof -
  have le: "length rewards \<le> length vs1"
    using phase1_result_props(1,2) [OF p1] by simp
  show ?thesis
    using p1 by (simp add: step_def Let_def phase2_upt [OF le])
qed

lemma step_yielded:
  assumes p1: "phase1 (vehicles s) zones draws 0 = (vs1, rewards, k, err)"
    and i: "i < length (yielded (step s zones draws))"
  shows "err = None" and "i < length rewards" and "i < length (vehicles s)"
    and "yielded (step s zones draws) ! i =
           yield_of i vs1 (humans_move (humans s) draws k) rewards"
proof -
  show e: "err = None"
  proof (cases err)
    case (Some e)
    then show ?thesis using i step_raise [of s zones draws vs1 rewards k e] p1 by simp
  qed simp
  have p: "phase1 (vehicles s) zones draws 0 = (vs1, rewards, k, None)" using p1 e by simp
  show r: "i < length rewards" using i unfolding step_ok [OF p] by simp
  show "i < length (vehicles s)" using r phase1_result_props(2) [OF p] by simp
  show "yielded (step s zones draws) ! i =
           yield_of i vs1 (humans_move (humans s) draws k) rewards"
    using r unfolding step_ok [OF p] by simp
qed

text \<open>
  Claim C4. Every tuple that \<^verbatim>\<open>Scenario.step\<close> yields, for a scenario of \<open>N\<close> vehicles
  and \<open>M\<close> humans, has an observation of length \<open>4 + 8 * (N - 1) + 4 * M\<close>. For a vehicle
  that was offline when the step began it is that many zeros; for any other vehicle it is
  laid out as \<open>obs_layout\<close> says, over the agents as they are after all moves: own direction
  x, y, z and speed, then per other vehicle in list order 8 zeros or displacement, direction,
  speed and priority, then per human displacement and \<^verbatim>\<open>feared\<close>.
\<close>

theorem step_observation_width:
  assumes p1: "phase1 (vehicles s) zones draws 0 = (vs1, rewards, k, err)"
    and i: "i < length (yielded (step s zones draws))"
  shows "length (fst (yielded (step s zones draws) ! i)) =
           4 + 8 * (length (vehicles s) - 1) + 4 * length (humans s) \<and>
         fst (yielded (step s zones draws) ! i) =
           (if veh_offline (vehicles s ! i)
            then replicate (4 + 8 * (length (vehicles s) - 1) + 4 * length (humans s)) (Num 0)
            else obs_layout i vs1 (humans_move (humans s) draws k))"
proof -
  note y = step_yielded [OF p1 i]
  have l: "length vs1 = length (vehicles s)" using phase1_result_props(1) [OF p1] .
  have iv: "i < length vs1" using y(3) l by simp
  have fl: "veh_offline (vs1 ! i) = veh_offline (vehicles s ! i)"
    using phase1_result_props(5) [OF p1 y(3)] by simp
  have w: "length (fst (yield_of i vs1 (humans_move (humans s) draws k) rewards)) =
      4 + 8 * (length (vehicles s) - 1) + 4 * length (humans s)"
    using length_yield_of [OF iv, of "humans_move (humans s) draws k" rewards]
    by (simp add: l length_humans_move)
  have o: "fst (yield_of i vs1 (humans_move (humans s) draws k) rewards) =
      (if veh_offline (vehicles s ! i)
       then replicate (4 + 8 * (length (vehicles s) - 1) + 4 * length (humans s)) (Num 0)
       else obs_layout i vs1 (humans_move (humans s) draws k))"
    unfolding yield_of_obs dim_nat [OF iv] fl by (simp add: l length_humans_move)
  show ?thesis unfolding y(4) using w o by simp
qed

text \<open>
  Claim C7. For a vehicle that is not offline, the tuple of the second loop is
  \<open>(obs, -5, True)\<close> when the scans set \<^verbatim>\<open>crashed\<close>; else \<open>(obs, - warning, False)\<close> when
  \<^verbatim>\<open>warning\<close> is non-zero; else \<open>(obs, reward, done)\<close> with \<open>done\<close> true exactly when
  the odometer is at least 20.
\<close>

theorem step_yield_precedence:
  assumes p1: "phase1 (vehicles s) zones draws 0 = (vs1, rewards, k, err)"
    and i: "i < length (yielded (step s zones draws))"
    and on: "\<not> veh_offline (vehicles s ! i)"
  shows "yielded (step s zones draws) ! i =
     (let st = scan i vs1 (humans_move (humans s) draws k) rewards in
      if crashed st then (obs st, - 5, True)
      else if warning st \<noteq> 0 then (obs st, - warning st, False)
      else (obs st, reward st, 20 \<le> veh_odometer (vs1 ! i)))"
proof -
  note y = step_yielded [OF p1 i]
  have fl: "\<not> veh_offline (vs1 ! i)"
    using phase1_result_props(5) [OF p1 y(3)] on by simp
  show ?thesis unfolding y(4) using fl by (simp add: yield_of_def Let_def scan_done)
qed

lemma magnitude_vsub_commute: "magnitude (vsub u w) = magnitude (vsub w u)"
  by (simp add: magnitude_def vsub_def power2_commute)

lemma init_locals_clear:
  "warning (init_locals i v rewards) = 0" "\<not> crashed (init_locals i v rewards)"
  by (simp_all add: init_locals_def Let_def)

lemma see_vehicle_crash:
  assumes "warning st = 0" "\<not> crashed st" "\<not> veh_offline other"
    and "magnitude (vsub (veh_position other) (veh_position v)) < 1"
  shows "crashed (see_vehicle i v st other)"
  using assms by (simp add: see_vehicle_def Let_def)

lemma scan_single_other_crash:
  assumes others: "take i vs @ drop (i + 1) vs = [other]"
    and on: "\<not> veh_offline other"
    and close: "magnitude (vsub (veh_position other) (veh_position (vs ! i))) < 1"
  shows "crashed (scan i vs hs rewards)"
proof -
  let ?st = "see_vehicle i (vs ! i) (init_locals i (vs ! i) rewards) other"
  have c: "crashed ?st"
    by (rule see_vehicle_crash [OF init_locals_clear on close])
  then have "warning ?st \<noteq> 0 \<or> crashed ?st" by simp
  from foldl_see_human_stuck [OF this, of i "vs ! i" hs]
  show ?thesis unfolding scan_def Let_def others using c by simp
qed

lemma crashed_marks:
  assumes "\<not> veh_offline (vs ! i)" and "crashed (scan i vs hs rewards)"
  shows "i \<in> set (marks_of i vs hs rewards)"
    and "yield_of i vs hs rewards = (obs_layout i vs hs, - 5, True)"
proof -
  show "i \<in> set (marks_of i vs hs rewards)"
    using scan_invariant [of i vs hs rewards] assms by (simp add: marks_of_def scan_inv_def)
  show "yield_of i vs hs rewards = (obs_layout i vs hs, - 5, True)"
    using assms by (simp add: yield_of_def Let_def scan_obs)
qed

text \<open>
  Claim C8. In a scenario of exactly two vehicles, neither offline, for which the first loop
  gets a zone for each and raises nothing, and whose positions after the moves are less than
  1 apart: the step yields \<open>(obs, -5, True)\<close> for both, each observation laid out with the
  other vehicle's own eight fields (both are still online during the tick), it raises
  nothing, and after it both vehicles are offline.
\<close>

theorem close_vehicles_crash:
  assumes two: "length (vehicles s) = 2"
    and on0: "\<not> veh_offline (vehicles s ! 0)" and on1: "\<not> veh_offline (vehicles s ! 1)"
    and z: "2 \<le> length zones"
    and p1: "phase1 (vehicles s) zones draws 0 = (vs1, rewards, k, None)"
    and close: "magnitude (vsub (veh_position (vs1 ! 1)) (veh_position (vs1 ! 0))) < 1"
  shows "yielded (step s zones draws) =
           [(obs_layout 0 vs1 (humans_move (humans s) draws k), - 5, True),
            (obs_layout 1 vs1 (humans_move (humans s) draws k), - 5, True)] \<and>
         \<not> veh_offline (vs1 ! 0) \<and> \<not> veh_offline (vs1 ! 1) \<and>
         raised (step s zones draws) = None \<and>
         veh_offline (vehicles (final (step s zones draws)) ! 0) \<and>
         veh_offline (vehicles (final (step s zones draws)) ! 1)"
proof -
  let ?hs = "humans_move (humans s) draws k"
  have l: "length vs1 = 2" using phase1_result_props(1) [OF p1] two by simp
  have r: "length rewards = 2" using phase1_result_props(2) [OF p1] two z by simp
  have f0: "\<not> veh_offline (vs1 ! 0)" using phase1_result_props(5) [OF p1, of 0] two on0 by simp
  have f1: "\<not> veh_offline (vs1 ! 1)" using phase1_result_props(5) [OF p1, of 1] two on1 by simp
  obtain a b where vs1: "vs1 = [a, b]"
    using l by (cases vs1; cases "tl vs1") auto
  have o0: "take 0 vs1 @ drop (0 + 1) vs1 = [vs1 ! 1]" by (simp add: vs1)
  have o1: "take 1 vs1 @ drop (1 + 1) vs1 = [vs1 ! 0]" by (simp add: vs1)
  have close': "magnitude (vsub (veh_position (vs1 ! 0)) (veh_position (vs1 ! 1))) < 1"
    using close by (simp add: magnitude_vsub_commute)
  have c0: "crashed (scan 0 vs1 ?hs rewards)"
    by (rule scan_single_other_crash [OF o0 f1 close])
  have c1: "crashed (scan 1 vs1 ?hs rewards)"
    by (rule scan_single_other_crash [OF o1 f0 close'])
  note m0 = crashed_marks [OF f0 c0] and m1 = crashed_marks [OF f1 c1]
  have upt: "[0..<length rewards] = [0, 1]" unfolding r by (simp add: upt_rec)
  have y: "yielded (step s zones draws) =
           [(obs_layout 0 vs1 ?hs, - 5, True), (obs_layout 1 vs1 ?hs, - 5, True)]"
    unfolding step_ok [OF p1] upt using m0(2) m1(2) by simp
  have e: "raised (step s zones draws) = None"
    unfolding step_ok [OF p1] using l r by simp
  have fin: "vehicles (final (step s zones draws)) =
      late_update (marks_of 0 vs1 ?hs rewards @ marks_of 1 vs1 ?hs rewards) vs1"
    unfolding step_ok [OF p1] upt using l r by simp
  have off0: "veh_offline (vehicles (final (step s zones draws)) ! 0)"
    unfolding fin using late_update_nth [of 0 vs1] l m0(1) by simp
  have off1: "veh_offline (vehicles (final (step s zones draws)) ! 1)"
    unfolding fin using late_update_nth [of 1 vs1] l m1(1) by simp
  show ?thesis using y f0 f1 e off0 off1 by simp
qed

lemma magnitude_less:
  assumes "0 \<le> c"
  shows "magnitude u < c \<longleftrightarrow> (vec_x u)\<^sup>2 + (vec_y u)\<^sup>2 + (vec_z u)\<^sup>2 < c\<^sup>2"
proof -
  have "sqrt ((vec_x u)\<^sup>2 + (vec_y u)\<^sup>2 + (vec_z u)\<^sup>2) < sqrt (c\<^sup>2) \<longleftrightarrow>
        (vec_x u)\<^sup>2 + (vec_y u)\<^sup>2 + (vec_z u)\<^sup>2 < c\<^sup>2"
    by (rule real_sqrt_less_iff)
  then show ?thesis using assms by (simp add: magnitude_def)
qed

lemma demo_move:
  "move (demo_vehicle\<lparr>veh_position := p\<rparr>) demo_zone (0, 0, 0) =
     (demo_vehicle\<lparr>veh_odometer := 7 / 200,
                   veh_position := vadd p (Vector3 (7 / 200) 0 0),
                   veh_speed := 7 / 10\<rparr>, Inr (7 / 200))"
  by (simp add: move_def Let_def demo_vehicle_def new_vehicle_def demo_zone_def constraint_def
      constraints_def py_min_def np_div_def vscale_def power2_eq_square)

lemma crash_phase1:
  "phase1 (vehicles crash_scenario) [demo_zone, demo_zone] no_draws 0 =
     ([demo_vehicle\<lparr>veh_odometer := 7 / 200,
                   veh_position := vadd (Vector3 0 0 0) (Vector3 (7 / 200) 0 0),
                   veh_speed := 7 / 10\<rparr>,
       demo_vehicle\<lparr>veh_odometer := 7 / 200,
                   veh_position := vadd (Vector3 (1 / 2) 0 0) (Vector3 (7 / 200) 0 0),
                   veh_speed := 7 / 10\<rparr>],
      [7 / 200, 7 / 200], 2, None)"
proof -
  have a: "demo_vehicle = demo_vehicle\<lparr>veh_position := Vector3 0 0 0\<rparr>"
    by (simp add: demo_vehicle_def new_vehicle_def)
  have o: "\<And>p. \<not> veh_offline (demo_vehicle\<lparr>veh_position := p\<rparr>)"
    by (simp add: demo_vehicle_def new_vehicle_def)
  have m0: "move demo_vehicle demo_zone (0, 0, 0) =
     (demo_vehicle\<lparr>veh_odometer := 7 / 200,
                   veh_position := vadd (Vector3 0 0 0) (Vector3 (7 / 200) 0 0),
                   veh_speed := 7 / 10\<rparr>, Inr (7 / 200))"
    using demo_move [of "Vector3 0 0 0"] a by simp
  show ?thesis
    using o [of "Vector3 0 0 0"] a
    by (simp add: crash_scenario_def no_draws_def demo_move m0 demo_vehicle_fields
        numeral_2_eq_2)
qed

lemma crash_length: "length (yielded (step crash_scenario [demo_zone, demo_zone] no_draws)) = 2"
  unfolding step_ok [OF crash_phase1] by simp

lemma crash_online:
  "\<not> veh_offline (vehicles crash_scenario ! 0)" "\<not> veh_offline (vehicles crash_scenario ! 1)"
  "length (vehicles crash_scenario) = 2" "length (humans crash_scenario) = 1"
  by (simp_all add: crash_scenario_def demo_vehicle_def new_vehicle_def)

theorem step_observation_width_witness:
  "0 < length (yielded (step crash_scenario [demo_zone, demo_zone] no_draws)) \<and>
   length (fst (yielded (step crash_scenario [demo_zone, demo_zone] no_draws) ! 0)) = 16"
proof -
  have i: "0 < length (yielded (step crash_scenario [demo_zone, demo_zone] no_draws))"
    by (simp add: crash_length)
  show ?thesis
    using step_observation_width [OF crash_phase1 i, THEN conjunct1] i
    by (simp add: crash_online)
qed

theorem step_yield_precedence_witness:
  "0 < length (yielded (step crash_scenario [demo_zone, demo_zone] no_draws)) \<and>
   \<not> veh_offline (vehicles crash_scenario ! 0) \<and>
   snd (yielded (step crash_scenario [demo_zone, demo_zone] no_draws) ! 0) = (- 5, True)"
proof -
  have i: "0 < length (yielded (step crash_scenario [demo_zone, demo_zone] no_draws))"
    by (simp add: crash_length)
  have c: "crashed (scan 0
      [demo_vehicle\<lparr>veh_odometer := 7 / 200,
                   veh_position := vadd (Vector3 0 0 0) (Vector3 (7 / 200) 0 0),
                   veh_speed := 7 / 10\<rparr>,
       demo_vehicle\<lparr>veh_odometer := 7 / 200,
                   veh_position := vadd (Vector3 (1 / 2) 0 0) (Vector3 (7 / 200) 0 0),
                   veh_speed := 7 / 10\<rparr>]
      (humans_move (humans crash_scenario) no_draws 2) [7 / 200, 7 / 200])"
    by (rule scan_single_other_crash [where other = "demo_vehicle\<lparr>veh_odometer := 7 / 200,
                   veh_position := vadd (Vector3 (1 / 2) 0 0) (Vector3 (7 / 200) 0 0),
                   veh_speed := 7 / 10\<rparr>"])
       (simp_all add: demo_vehicle_fields magnitude_less vsub_def vadd_def power2_eq_square)
  show ?thesis
    using step_yield_precedence [OF crash_phase1 i crash_online(1)] i crash_online(1) c
    by (simp add: Let_def)
qed

theorem close_vehicles_crash_witness:
  "length (vehicles crash_scenario) = 2 \<and>
   \<not> veh_offline (vehicles crash_scenario ! 0) \<and> \<not> veh_offline (vehicles crash_scenario ! 1) \<and>
   map snd (yielded (step crash_scenario [demo_zone, demo_zone] no_draws)) =
     [(- 5, True), (- 5, True)] \<and>
   veh_offline (vehicles (final (step crash_scenario [demo_zone, demo_zone] no_draws)) ! 0) \<and>
   veh_offline (vehicles (final (step crash_scenario [demo_zone, demo_zone] no_draws)) ! 1)"
proof -
  have z: "2 \<le> length [demo_zone, demo_zone]" by simp
  have close: "magnitude (vsub
      (veh_position ([demo_vehicle\<lparr>veh_odometer := 7 / 200,
                   veh_position := vadd (Vector3 0 0 0) (Vector3 (7 / 200) 0 0),
                   veh_speed := 7 / 10\<rparr>,
       demo_vehicle\<lparr>veh_odometer := 7 / 200,
                   veh_position := vadd (Vector3 (1 / 2) 0 0) (Vector3 (7 / 200) 0 0),
                   veh_speed := 7 / 10\<rparr>] ! 1))
      (veh_position ([demo_vehicle\<lparr>veh_odometer := 7 / 200,
                   veh_position := vadd (Vector3 0 0 0) (Vector3 (7 / 200) 0 0),
                   veh_speed := 7 / 10\<rparr>,
       demo_vehicle\<lparr>veh_odometer := 7 / 200,
                   veh_position := vadd (Vector3 (1 / 2) 0 0) (Vector3 (7 / 200) 0 0),
                   veh_speed := 7 / 10\<rparr>] ! 0))) < 1"
    by (simp add: magnitude_less vsub_def vadd_def power2_eq_square)
  show ?thesis
    using close_vehicles_crash [OF crash_online(3) crash_online(1) crash_online(2) z
        crash_phase1 close] crash_online
    by simp
qed

lemma step_final_short:
  assumes short: "length zones < length (vehicles s)"
    and p1: "phase1 (vehicles s) zones draws 0 = (vs1, rewards, k, err)"
  shows "vehicles (final (step s zones draws)) = vs1"
    and "raised (step s zones draws) = (if err = None then Some IndexError else err)"
    and "err = None \<Longrightarrow> length (yielded (step s zones draws)) = length zones"
proof -
  have l: "length vs1 = length (vehicles s)" using phase1_result_props(1) [OF p1] .
  show "vehicles (final (step s zones draws)) = vs1"
  proof (cases err)
    case None
    then have p: "phase1 (vehicles s) zones draws 0 = (vs1, rewards, k, None)" using p1 by simp
    have "length rewards < length vs1" using phase1_result_props(2) [OF p] short l by simp
    then show ?thesis unfolding step_ok [OF p] by simp
  next
    case (Some e)
    then show ?thesis using step_raise [of s zones draws vs1 rewards k e] p1 by simp
  qed
  show "raised (step s zones draws) = (if err = None then Some IndexError else err)"
  proof (cases err)
    case None
    then have p: "phase1 (vehicles s) zones draws 0 = (vs1, rewards, k, None)" using p1 by simp
    have "length rewards < length vs1" using phase1_result_props(2) [OF p] short l by simp
    then show ?thesis unfolding step_ok [OF p] using None by simp
  next
    case (Some e)
    then show ?thesis using step_raise [of s zones draws vs1 rewards k e] p1 by simp
  qed
  show "length (yielded (step s zones draws)) = length zones" if "err = None"
  proof -
    have p: "phase1 (vehicles s) zones draws 0 = (vs1, rewards, k, None)" using p1 that by simp
    have "length rewards = length zones" using phase1_result_props(2) [OF p] short by simp
    then show ?thesis unfolding step_ok [OF p] by simp
  qed
qed

text \<open>
  Claim C5, amended. When the zone source yields fewer zones than there are vehicles, the
  first loop leaves the trailing vehicles unmoved, but the step does not complete: it ends
  with an exception and without the late update, so no offline flag changes. Unless a move
  raised already, it yields the tuples of the vehicles that got a zone and then raises
  \<^verbatim>\<open>IndexError\<close> at \<^verbatim>\<open>rewards[i]\<close> for the first vehicle that got none.
\<close>

theorem short_zone_source:
  assumes short: "length zones < length (vehicles s)"
  shows "raised (step s zones draws) \<noteq> None \<and>
         drop (length zones) (vehicles (final (step s zones draws))) =
           drop (length zones) (vehicles s) \<and>
         map veh_offline (vehicles (final (step s zones draws))) =
           map veh_offline (vehicles s) \<and>
         (snd (snd (snd (phase1 (vehicles s) zones draws 0))) = None \<longrightarrow>
            raised (step s zones draws) = Some IndexError \<and>
            length (yielded (step s zones draws)) = length zones)"
proof -
  obtain vs1 rewards k err where p1: "phase1 (vehicles s) zones draws 0 = (vs1, rewards, k, err)"
    by (cases "phase1 (vehicles s) zones draws 0") auto
  note f = step_final_short [OF short p1]
  have l: "length vs1 = length (vehicles s)" using phase1_result_props(1) [OF p1] .
  have a: "raised (step s zones draws) \<noteq> None" unfolding f(2) by (cases err) simp_all
  have b: "drop (length zones) (vehicles (final (step s zones draws))) =
           drop (length zones) (vehicles s)"
    unfolding f(1) by (rule phase1_result_props(4) [OF p1])
  have c: "map veh_offline (vehicles (final (step s zones draws))) =
           map veh_offline (vehicles s)"
    unfolding f(1)
    by (rule nth_equalityI) (simp_all add: l phase1_result_props(5) [OF p1])
  have d: "snd (snd (snd (phase1 (vehicles s) zones draws 0))) = None \<longrightarrow>
            raised (step s zones draws) = Some IndexError \<and>
            length (yielded (step s zones draws)) = length zones"
    unfolding p1 using f(2) f(3) by simp
  show ?thesis using a b c d by blast
qed

lemma short_phase1:
  "phase1 (vehicles crash_scenario) [demo_zone] no_draws 0 =
     ([demo_vehicle\<lparr>veh_odometer := 7 / 200,
                   veh_position := vadd (Vector3 0 0 0) (Vector3 (7 / 200) 0 0),
                   veh_speed := 7 / 10\<rparr>,
       demo_vehicle\<lparr>veh_position := Vector3 (1 / 2) 0 0\<rparr>],
      [7 / 200], 1, None)"
proof -
  have a: "demo_vehicle = demo_vehicle\<lparr>veh_position := Vector3 0 0 0\<rparr>"
    by (simp add: demo_vehicle_def new_vehicle_def)
  have m0: "move demo_vehicle demo_zone (0, 0, 0) =
     (demo_vehicle\<lparr>veh_odometer := 7 / 200,
                   veh_position := vadd (Vector3 0 0 0) (Vector3 (7 / 200) 0 0),
                   veh_speed := 7 / 10\<rparr>, Inr (7 / 200))"
    using demo_move [of "Vector3 0 0 0"] a by simp
  show ?thesis
    by (simp add: crash_scenario_def no_draws_def m0 demo_vehicle_fields)
qed

text \<open>
  The claim as worded fails: with two vehicles and one zone the step yields one tuple and
  then raises \<^verbatim>\<open>IndexError\<close>.
\<close>

theorem short_zone_source_counterexample:
  "length [demo_zone] < length (vehicles crash_scenario) \<and>
   raised (step crash_scenario [demo_zone] no_draws) = Some IndexError \<and>
   length (yielded (step crash_scenario [demo_zone] no_draws)) = 1"
  unfolding step_ok [OF short_phase1] by (simp add: crash_scenario_def)

theorem short_zone_source_witness:
  "length [demo_zone] < length (vehicles crash_scenario) \<and>
   snd (snd (snd (phase1 (vehicles crash_scenario) [demo_zone] no_draws 0))) = None \<and>
   raised (step crash_scenario [demo_zone] no_draws) = Some IndexError \<and>
   length (yielded (step crash_scenario [demo_zone] no_draws)) = length [demo_zone] \<and>
   drop 1 (vehicles (final (step crash_scenario [demo_zone] no_draws))) =
     drop 1 (vehicles crash_scenario)"
proof -
  have s: "length [demo_zone] < length (vehicles crash_scenario)"
    by (simp add: crash_scenario_def)
  have n: "snd (snd (snd (phase1 (vehicles crash_scenario) [demo_zone] no_draws 0))) = None"
    by (simp add: short_phase1)
  show ?thesis using short_zone_source [OF s, of no_draws] s n by simp
qed

lemma foldl_two_split:
  "foldl g (foldl f st os) hs =
     foldl g (foldl f (foldl g (foldl f st (take n os)) (take (n - length os) hs)) (drop n os))
       (drop (n - length os) hs)"
proof (cases "n \<le> length os")
  case True
  have "foldl f st os = foldl f (foldl f st (take n os)) (drop n os)"
    unfolding foldl_append [symmetric] append_take_drop_id ..
  then show ?thesis using True by simp
next
  case False
  have "foldl g st' hs =
        foldl g (foldl g st' (take (n - length os) hs)) (drop (n - length os) hs)" for st'
    unfolding foldl_append [symmetric] append_take_drop_id ..
  then show ?thesis using False by simp
qed

lemma scan_after_upto:
  "scan i vs hs rewards =
     foldl (see_human i (vs ! i))
       (foldl (see_vehicle i (vs ! i)) (scan_upto i vs hs rewards n)
          (drop n (take i vs @ drop (i + 1) vs)))
       (drop (n - length (take i vs @ drop (i + 1) vs)) hs)"
  unfolding scan_def scan_upto_def Let_def by (rule foldl_two_split)

lemma scan_upto_inv: "scan_inv i (vs ! i) (scan_upto i vs hs rewards n)"
  unfolding scan_upto_def Let_def
  by (intro foldl_see_human_inv foldl_see_vehicle_inv init_locals_inv)

lemma scan_warned:
  assumes w: "warning (scan_upto i vs hs rewards n) \<noteq> 0"
  shows "warning (scan i vs hs rewards) = warning (scan_upto i vs hs rewards n)"
    and "\<not> crashed (scan i vs hs rewards)"
    and "offline (scan i vs hs rewards) = (if 20 \<le> veh_odometer (vs ! i) then [i] else [])"
proof -
  let ?mid = "scan_upto i vs hs rewards n"
  let ?os = "drop n (take i vs @ drop (i + 1) vs)"
  let ?hs = "drop (n - length (take i vs @ drop (i + 1) vs)) hs"
  have a: "warning ?mid \<noteq> 0 \<or> crashed ?mid" using w by simp
  let ?mid2 = "?mid\<lparr>obs := obs ?mid @ concat (map (other_fields (vs ! i)) ?os)\<rparr>"
  have b: "warning ?mid2 \<noteq> 0 \<or> crashed ?mid2" using w by simp
  have s: "scan i vs hs rewards =
      ?mid2\<lparr>obs := obs ?mid2 @ concat (map (human_fields (vs ! i)) ?hs)\<rparr>"
    unfolding scan_after_upto [of i vs hs rewards n] foldl_see_vehicle_stuck [OF a]
      foldl_see_human_stuck [OF b] ..
  have inv: "scan_inv i (vs ! i) ?mid" by (rule scan_upto_inv)
  show "warning (scan i vs hs rewards) = warning ?mid" unfolding s by simp
  show "\<not> crashed (scan i vs hs rewards)" unfolding s using inv w by (simp add: scan_inv_def)
  show "offline (scan i vs hs rewards) = (if 20 \<le> veh_odometer (vs ! i) then [i] else [])"
    unfolding s using inv w by (simp add: scan_inv_def)
qed

lemma concat_marks_mem:
  "i \<in> set (concat (map (\<lambda>j. marks_of j vs hs rewards) [0..<m])) \<longleftrightarrow>
     i < m \<and> i \<in> set (marks_of i vs hs rewards)"
  using marks_of_subset by fastforce

text \<open>
  Claim C10, amended. For a vehicle that is not offline: once \<^verbatim>\<open>warning\<close> is non-zero
  after some number \<open>n\<close> of scanned agents (other vehicles first, then humans), no later
  agent changes it, sets \<^verbatim>\<open>crashed\<close> or appends to \<^verbatim>\<open>offline\<close>, whatever its
  distance, and the vehicle yields \<open>(obs, - warning, False)\<close>. It remains online after the
  step provided its odometer is below 20; the finish check is no proximity check and is
  made before the scans.
\<close>

theorem warning_blocks_crash:
  assumes p1: "phase1 (vehicles s) zones draws 0 = (vs1, rewards, k, err)"
    and i: "i < length (yielded (step s zones draws))"
    and on: "\<not> veh_offline (vehicles s ! i)"
    and w: "warning (scan_upto i vs1 (humans_move (humans s) draws k) rewards n) \<noteq> 0"
  shows "yielded (step s zones draws) ! i =
           (obs_layout i vs1 (humans_move (humans s) draws k),
            - warning (scan_upto i vs1 (humans_move (humans s) draws k) rewards n), False) \<and>
         \<not> crashed (scan i vs1 (humans_move (humans s) draws k) rewards) \<and>
         offline (scan i vs1 (humans_move (humans s) draws k) rewards) =
           offline (init_locals i (vs1 ! i) rewards) \<and>
         (veh_odometer (vs1 ! i) < 20 \<longrightarrow>
            \<not> veh_offline (vehicles (final (step s zones draws)) ! i))"
proof -
  let ?hs = "humans_move (humans s) draws k"
  note y = step_yielded [OF p1 i]
  have p: "phase1 (vehicles s) zones draws 0 = (vs1, rewards, k, None)" using p1 y(1) by simp
  have l: "length vs1 = length (vehicles s)" using phase1_result_props(1) [OF p1] .
  have iv: "i < length vs1" using y(3) l by simp
  have fl: "\<not> veh_offline (vs1 ! i)"
    using phase1_result_props(5) [OF p1 y(3)] on by simp
  note sw = scan_warned [OF w]
  have a: "yielded (step s zones draws) ! i =
           (obs_layout i vs1 ?hs, - warning (scan_upto i vs1 ?hs rewards n), False)"
    unfolding y(4) using fl sw(1,2) w by (simp add: yield_of_def Let_def scan_obs)
  have b: "offline (scan i vs1 ?hs rewards) = offline (init_locals i (vs1 ! i) rewards)"
    unfolding sw(3) by (simp add: init_locals_def Let_def)
  have m: "marks_of i vs1 ?hs rewards = (if 20 \<le> veh_odometer (vs1 ! i) then [i] else [])"
    using fl sw(3) by (simp add: marks_of_def)
  have mem: "i \<in> set (concat (map (\<lambda>j. marks_of j vs1 ?hs rewards) [0..<length rewards])) \<longleftrightarrow>
      20 \<le> veh_odometer (vs1 ! i)"
    unfolding concat_marks_mem m using y(2) by simp
  have c: "veh_odometer (vs1 ! i) < 20 \<longrightarrow>
            \<not> veh_offline (vehicles (final (step s zones draws)) ! i)"
  proof (cases "length rewards < length vs1")
    case True
    then show ?thesis unfolding step_ok [OF p] using fl by simp
  next
    case False
    have f: "vehicles (final (step s zones draws)) =
        late_update (concat (map (\<lambda>j. marks_of j vs1 ?hs rewards) [0..<length rewards])) vs1"
      unfolding step_ok [OF p] using False by simp
    show ?thesis unfolding f late_update_nth [OF iv] using mem fl by simp
  qed
  show ?thesis using a sw(2) b c by blast
qed

lemma cruise_move:
  "move (demo_vehicle\<lparr>veh_odometer := d, veh_speed := 14\<rparr>) wide_zone (0, 0, 0) =
     (demo_vehicle\<lparr>veh_odometer := d + 7 / 5, veh_position := Vector3 (7 / 5) 0 0,
                   veh_speed := 14\<rparr>, Inr (7 / 5))"
  by (simp add: move_def Let_def demo_vehicle_def new_vehicle_def wide_zone_def constraint_def
      constraints_def py_min_def np_div_def vscale_def vadd_def power2_eq_square)

lemma cruise_phase1:
  "phase1 (vehicles (cruise_scenario d)) [wide_zone] no_draws 0 =
     ([demo_vehicle\<lparr>veh_odometer := d + 7 / 5, veh_position := Vector3 (7 / 5) 0 0,
                    veh_speed := 14\<rparr>], [7 / 5], 1, None)"
  by (simp add: cruise_scenario_def no_draws_def cruise_move demo_vehicle_fields)

lemma cruise_humans:
  "humans_move (humans (cruise_scenario d)) no_draws 1 = [still_human (Vector3 (17 / 5) 0 0)]"
  by (simp add: cruise_scenario_def no_draws_def human_move_def Let_def still_human_def
      vscale_def vadd_def numeral_eq_Suc)

lemma cruise_scan:
  "scan 0 [demo_vehicle\<lparr>veh_odometer := d, veh_position := Vector3 (7 / 5) 0 0,
                        veh_speed := 14\<rparr>] [still_human (Vector3 (17 / 5) 0 0)] [7 / 5] =
     \<lparr>obs = [Num 1, Num 0, Num 0, Num 14, Num 2, Num 0, Num 0, Flag True],
      reward = (if 20 \<le> d then 5 else 7 / 5), is_done = (20 \<le> d), crashed = False,
      warning = 1, offline = (if 20 \<le> d then [0] else [])\<rparr>"
  by (simp add: scan_def Let_def init_locals_def see_human_def demo_vehicle_fields
      still_human_def vec_t_def vsub_def magnitude_less power2_eq_square)

text \<open>
  The claim as worded fails: the vehicle crosses odometer 20 on this tick and is warned by
  the human, so it yields \<open>(obs, -1, False)\<close> and yet is offline after the step.
\<close>

theorem warning_blocks_crash_counterexample:
  "\<not> veh_offline (vehicles (cruise_scenario 19) ! 0) \<and>
   yielded (step (cruise_scenario 19) [wide_zone] no_draws) =
     [([Num 1, Num 0, Num 0, Num 14, Num 2, Num 0, Num 0, Flag True], - 1, False)] \<and>
   raised (step (cruise_scenario 19) [wide_zone] no_draws) = None \<and>
   veh_offline (vehicles (final (step (cruise_scenario 19) [wide_zone] no_draws)) ! 0)"
  unfolding step_ok [OF cruise_phase1] cruise_humans
  by (simp add: yield_of_def marks_of_def cruise_scan late_update_def demo_vehicle_fields
      cruise_scenario_def)

lemma priority_move:
  "move (demo_vehicle\<lparr>veh_priority := q, veh_odometer := d, veh_position := p,
                       veh_speed := 14\<rparr>) wide_zone (0, 0, 0) =
     (demo_vehicle\<lparr>veh_priority := q, veh_odometer := d + 7 / 5,
                   veh_position := vadd p (Vector3 (7 / 5) 0 0), veh_speed := 14\<rparr>,
      Inr (7 / 5))"
  by (simp add: move_def Let_def demo_vehicle_def new_vehicle_def wide_zone_def constraint_def
      constraints_def py_min_def np_div_def vscale_def power2_eq_square)

lemma suppress_phase1:
  "phase1 (vehicles suppress_scenario) [wide_zone, wide_zone] no_draws 0 =
     ([demo_vehicle\<lparr>veh_priority := 1, veh_odometer := 3 + 7 / 5,
                    veh_position := vadd (Vector3 0 0 0) (Vector3 (7 / 5) 0 0),
                    veh_speed := 14\<rparr>,
       demo_vehicle\<lparr>veh_priority := 2, veh_odometer := 0 + 7 / 5,
                    veh_position := vadd (Vector3 0 2 0) (Vector3 (7 / 5) 0 0),
                    veh_speed := 14\<rparr>],
      [7 / 5 * 1, 7 / 5 * 2], 2, None)"
  by (simp add: suppress_scenario_def no_draws_def priority_move demo_vehicle_fields)

lemma suppress_humans:
  "humans_move (humans suppress_scenario) no_draws 2 = [still_human (Vector3 (19 / 10) 0 0)]"
  by (simp add: suppress_scenario_def no_draws_def human_move_def Let_def still_human_def
      vscale_def vadd_def)

text \<open>The local variables of the first vehicle after the other vehicle, before the human.\<close>

lemma suppress_scan_upto:
  "warning (scan_upto 0
     [demo_vehicle\<lparr>veh_priority := 1, veh_odometer := 3 + 7 / 5,
                    veh_position := vadd (Vector3 0 0 0) (Vector3 (7 / 5) 0 0),
                    veh_speed := 14\<rparr>,
      demo_vehicle\<lparr>veh_priority := 2, veh_odometer := 0 + 7 / 5,
                    veh_position := vadd (Vector3 0 2 0) (Vector3 (7 / 5) 0 0),
                    veh_speed := 14\<rparr>]
     [still_human (Vector3 (19 / 10) 0 0)] [7 / 5 * 1, 7 / 5 * 2] 1) = 1"
  by (simp add: scan_upto_def Let_def init_locals_def see_vehicle_def demo_vehicle_fields
      vec_t_def vsub_def vadd_def magnitude_less power2_eq_square)

theorem warning_blocks_crash_witness:
  "0 < length (yielded (step suppress_scenario [wide_zone, wide_zone] no_draws)) \<and>
   \<not> veh_offline (vehicles suppress_scenario ! 0) \<and>
   warning (scan_upto 0
     [demo_vehicle\<lparr>veh_priority := 1, veh_odometer := 3 + 7 / 5,
                    veh_position := vadd (Vector3 0 0 0) (Vector3 (7 / 5) 0 0),
                    veh_speed := 14\<rparr>,
      demo_vehicle\<lparr>veh_priority := 2, veh_odometer := 0 + 7 / 5,
                    veh_position := vadd (Vector3 0 2 0) (Vector3 (7 / 5) 0 0),
                    veh_speed := 14\<rparr>]
     (humans_move (humans suppress_scenario) no_draws 2) [7 / 5 * 1, 7 / 5 * 2] 1) \<noteq> 0 \<and>
   1 < length (take 0 (vehicles suppress_scenario) @ drop (0 + 1) (vehicles suppress_scenario)) +
       length (humans_move (humans suppress_scenario) no_draws 2) \<and>
   magnitude (vsub (hum_position (humans_move (humans suppress_scenario) no_draws 2 ! 0))
                   (vadd (Vector3 0 0 0) (Vector3 (7 / 5) 0 0))) < 1 \<and>
   veh_odometer (demo_vehicle\<lparr>veh_priority := 1, veh_odometer := 3 + 7 / 5,
      veh_position := vadd (Vector3 0 0 0) (Vector3 (7 / 5) 0 0), veh_speed := 14\<rparr>) < 20 \<and>
   snd (yielded (step suppress_scenario [wide_zone, wide_zone] no_draws) ! 0) = (- 1, False) \<and>
   \<not> crashed (scan 0
     [demo_vehicle\<lparr>veh_priority := 1, veh_odometer := 3 + 7 / 5,
                    veh_position := vadd (Vector3 0 0 0) (Vector3 (7 / 5) 0 0),
                    veh_speed := 14\<rparr>,
      demo_vehicle\<lparr>veh_priority := 2, veh_odometer := 0 + 7 / 5,
                    veh_position := vadd (Vector3 0 2 0) (Vector3 (7 / 5) 0 0),
                    veh_speed := 14\<rparr>]
     (humans_move (humans suppress_scenario) no_draws 2) [7 / 5 * 1, 7 / 5 * 2]) \<and>
   \<not> veh_offline
       (vehicles (final (step suppress_scenario [wide_zone, wide_zone] no_draws)) ! 0)"
proof -
  let ?vs = "[demo_vehicle\<lparr>veh_priority := 1, veh_odometer := 3 + 7 / 5,
                    veh_position := vadd (Vector3 0 0 0) (Vector3 (7 / 5) 0 0),
                    veh_speed := 14\<rparr>,
      demo_vehicle\<lparr>veh_priority := 2, veh_odometer := 0 + 7 / 5,
                    veh_position := vadd (Vector3 0 2 0) (Vector3 (7 / 5) 0 0),
                    veh_speed := 14\<rparr>]"
  let ?hs = "humans_move (humans suppress_scenario) no_draws 2"
  let ?rs = "[7 / 5 * 1, 7 / 5 * 2] :: real list"
  have i: "0 < length (yielded (step suppress_scenario [wide_zone, wide_zone] no_draws))"
    unfolding step_ok [OF suppress_phase1] by simp
  have on: "\<not> veh_offline (vehicles suppress_scenario ! 0)"
    by (simp add: suppress_scenario_def demo_vehicle_fields)
  have v: "warning (scan_upto 0 ?vs ?hs ?rs 1) = 1"
    unfolding suppress_humans by (rule suppress_scan_upto)
  then have w: "warning (scan_upto 0 ?vs ?hs ?rs 1) \<noteq> 0" by simp
  have more: "1 < length (take 0 (vehicles suppress_scenario) @
                  drop (0 + 1) (vehicles suppress_scenario)) + length ?hs"
    unfolding suppress_humans by (simp add: suppress_scenario_def)
  have near: "magnitude (vsub (hum_position (?hs ! 0))
                   (vadd (Vector3 0 0 0) (Vector3 (7 / 5) 0 0))) < 1"
    unfolding suppress_humans
    by (simp add: still_human_def vsub_def vadd_def magnitude_less power2_eq_square)
  have o: "veh_odometer (demo_vehicle\<lparr>veh_priority := 1, veh_odometer := 3 + 7 / 5,
      veh_position := vadd (Vector3 0 0 0) (Vector3 (7 / 5) 0 0), veh_speed := 14\<rparr>) < 20"
    by simp
  from warning_blocks_crash [OF suppress_phase1 i on w]
  have "snd (yielded (step suppress_scenario [wide_zone, wide_zone] no_draws) ! 0) = (- 1, False)"
    and "\<not> crashed (scan 0 ?vs ?hs ?rs)"
    and "\<not> veh_offline
       (vehicles (final (step suppress_scenario [wide_zone, wide_zone] no_draws)) ! 0)"
    unfolding v using o by simp_all
  then show ?thesis using i on w more near o by blast
qed

lemma concat_block:
  assumes "\<And>x. length (f x) = n" and "m < length xs"
  shows "take n (drop (n * m) (concat (map f xs) @ rest)) = f (xs ! m)"
  using assms(2)
proof (induction xs arbitrary: m)
  case Nil
  then show ?case by simp
next
  case (Cons x xs)
  show ?case
  proof (cases m)
    case 0
    then show ?thesis by (simp add: assms(1))
  next
    case (Suc m')
    then have "m' < length xs" using Cons.prems by simp
    from Cons.IH [OF this] show ?thesis unfolding Suc by (simp add: assms(1))
  qed
qed

lemma others_nth:
  assumes "i < length vs" "j < length vs" "i \<noteq> j"
  shows "(if i < j then i else i - 1) < length (take j vs @ drop (Suc j) vs) \<and>
         (take j vs @ drop (Suc j) vs) ! (if i < j then i else i - 1) = vs ! i"
proof (cases "i < j")
  case True
  then show ?thesis using assms by (simp add: nth_append)
next
  case False
  then have "j < i" using assms(3) by simp
  then show ?thesis using assms by (auto simp: nth_append min_def)
qed

lemma layout_block:
  assumes i: "i < length vs" and j: "j < length vs" and ne: "i \<noteq> j"
  shows "take 8 (drop (4 + 8 * (if i < j then i else i - 1)) (obs_layout j vs hs)) =
         other_fields (vs ! j) (vs ! i)"
proof -
  define m where "m = (if i < j then i else i - 1)"
  define os where "os = take j vs @ drop (Suc j) vs"
  define R where "R = concat (map (other_fields (vs ! j)) os) @
          concat (map (human_fields (vs ! j)) hs)"
  have o: "m < length os \<and> os ! m = vs ! i"
    unfolding m_def os_def by (rule others_nth [OF i j ne])
  have b: "take 8 (drop (8 * m) R) = other_fields (vs ! j) (os ! m)"
    unfolding R_def by (rule concat_block [OF length_other_fields conjunct1 [OF o]])
  have "obs_layout j vs hs =
      [Num (vec_x (veh_direction (vs ! j))), Num (vec_y (veh_direction (vs ! j))),
       Num (vec_z (veh_direction (vs ! j))), Num (veh_speed (vs ! j))] @ R"
    by (simp add: obs_layout_def R_def os_def)
  moreover have "4 + 8 * m = Suc (Suc (Suc (Suc (8 * m))))" by simp
  ultimately have "drop (4 + 8 * m) (obs_layout j vs hs) = drop (8 * m) R"
    by (simp only: append_Cons append_Nil drop_Suc_Cons)
  then show ?thesis unfolding m_def [symmetric] using b o by simp
qed

lemma late_update_offline_same:
  assumes "i < length vs" and "veh_offline (vs ! i)"
  shows "late_update off vs ! i = vs ! i"
proof -
  have "(vs ! i)\<lparr>veh_offline := True\<rparr> = vs ! i" using assms(2) by simp
  then show ?thesis unfolding late_update_nth [OF assms(1)] by simp
qed

lemma zeros_block:
  assumes "4 + 8 * m + 8 \<le> d"
  shows "take 8 (drop (4 + 8 * m) (replicate d (Num 0))) = replicate 8 (Num 0)"
  using assms by (simp add: min_def)

lemma yield_block:
  assumes i: "i < length vs" and j: "j < length vs" and ne: "i \<noteq> j"
    and off: "veh_offline (vs ! i)"
  shows "take 8 (drop (4 + 8 * (if i < j then i else i - 1))
           (fst (yield_of j vs hs rewards))) = replicate 8 (Num 0)"
proof (cases "veh_offline (vs ! j)")
  case True
  have "(if i < j then i else i - 1) + 2 \<le> length vs" using i j ne by auto
  then have "4 + 8 * (if i < j then i else i - 1) + 8 \<le>
      4 + 8 * (length vs - 1) + 4 * length hs" by simp
  from zeros_block [OF this] show ?thesis
    unfolding yield_of_obs dim_nat [OF j] using True by simp
next
  case False
  show ?thesis
    unfolding yield_of_obs using False layout_block [OF i j ne] off
    by (simp add: other_fields_def)
qed

text \<open>One step, seen from a vehicle that is offline when it begins.\<close>

lemma step_lengths:
  "length (vehicles (final (step s zones draws))) = length (vehicles s) \<and>
   length (humans (final (step s zones draws))) = length (humans s)"
proof -
  obtain vs1 rewards k err where p1: "phase1 (vehicles s) zones draws 0 = (vs1, rewards, k, err)"
    by (cases "phase1 (vehicles s) zones draws 0") auto
  have l: "length vs1 = length (vehicles s)" using phase1_result_props(1) [OF p1] .
  show ?thesis
  proof (cases err)
    case None
    then have p: "phase1 (vehicles s) zones draws 0 = (vs1, rewards, k, None)" using p1 by simp
    show ?thesis unfolding step_ok [OF p]
      by (simp add: l length_late_update length_humans_move)
  next
    case (Some e)
    then show ?thesis using step_raise [of s zones draws vs1 rewards k e] p1 l by simp
  qed
qed

lemma step_offline:
  assumes i: "i < length (vehicles s)" and off: "veh_offline (vehicles s ! i)"
  shows "vehicles (final (step s zones draws)) ! i = vehicles s ! i"
    and "raised (step s zones draws) = None \<Longrightarrow>
           length (yielded (step s zones draws)) = length (vehicles s)"
    and "i < length (yielded (step s zones draws)) \<Longrightarrow>
           yielded (step s zones draws) ! i =
             (replicate (4 + 8 * (length (vehicles s) - 1) + 4 * length (humans s)) (Num 0),
              0, True)"
    and "j < length (yielded (step s zones draws)) \<Longrightarrow> j \<noteq> i \<Longrightarrow>
           take 8 (drop (4 + 8 * (if i < j then i else i - 1))
             (fst (yielded (step s zones draws) ! j))) = replicate 8 (Num 0)"
proof -
  obtain vs1 rewards k err where p1: "phase1 (vehicles s) zones draws 0 = (vs1, rewards, k, err)"
    by (cases "phase1 (vehicles s) zones draws 0") auto
  have l: "length vs1 = length (vehicles s)" using phase1_result_props(1) [OF p1] .
  have iv: "i < length vs1" using i l by simp
  have same: "vs1 ! i = vehicles s ! i" using phase1_result_props(5) [OF p1 i] off by simp
  have off1: "veh_offline (vs1 ! i)" using same off by simp
  show "vehicles (final (step s zones draws)) ! i = vehicles s ! i"
  proof (cases err)
    case None
    then have p: "phase1 (vehicles s) zones draws 0 = (vs1, rewards, k, None)" using p1 by simp
    show ?thesis unfolding step_ok [OF p]
      by (simp add: late_update_offline_same [OF iv off1] same)
  next
    case (Some e)
    then show ?thesis using step_raise [of s zones draws vs1 rewards k e] p1 same by simp
  qed
  show "length (yielded (step s zones draws)) = length (vehicles s)"
    if "raised (step s zones draws) = None"
  proof (cases err)
    case None
    then have p: "phase1 (vehicles s) zones draws 0 = (vs1, rewards, k, None)" using p1 by simp
    have le: "length rewards \<le> length vs1" using phase1_result_props(1,2) [OF p] by simp
    have "\<not> length rewards < length vs1" using that unfolding step_ok [OF p] by (simp split: if_splits)
    then show ?thesis unfolding step_ok [OF p] using le l by simp
  next
    case (Some e)
    then show ?thesis using step_raise [of s zones draws vs1 rewards k e] p1 that by simp
  qed
  show "yielded (step s zones draws) ! i =
             (replicate (4 + 8 * (length (vehicles s) - 1) + 4 * length (humans s)) (Num 0),
              0, True)"
    if y: "i < length (yielded (step s zones draws))"
  proof -
    note sy = step_yielded [OF p1 y]
    have r0: "rewards ! i = 0" by (rule phase1_result_props(6) [OF p1 sy(2) i off])
    show ?thesis unfolding sy(4) yield_of_def dim_nat [OF iv] using off1 r0
      by (simp add: l length_humans_move)
  qed
  show "take 8 (drop (4 + 8 * (if i < j then i else i - 1))
             (fst (yielded (step s zones draws) ! j))) = replicate 8 (Num 0)"
    if y: "j < length (yielded (step s zones draws))" and ne: "j \<noteq> i"
  proof -
    note sy = step_yielded [OF p1 y]
    have jv: "j < length vs1" using sy(3) l by simp
    have ne': "i \<noteq> j" using ne by simp
    show ?thesis unfolding sy(4) by (rule yield_block [OF iv jv ne' off1])
  qed
qed

lemma run_offline:
  assumes "i < length (vehicles s)" and "veh_offline (vehicles s ! i)" and "t < length inputs"
  shows "vehicles (final (run s inputs ! t)) ! i = vehicles s ! i \<and>
         (raised (run s inputs ! t) = None \<longrightarrow>
            length (yielded (run s inputs ! t)) = length (vehicles s)) \<and>
         (i < length (yielded (run s inputs ! t)) \<longrightarrow>
            yielded (run s inputs ! t) ! i =
              (replicate (4 + 8 * (length (vehicles s) - 1) + 4 * length (humans s)) (Num 0),
               0, True)) \<and>
         (\<forall>j < length (yielded (run s inputs ! t)). j \<noteq> i \<longrightarrow>
            take 8 (drop (4 + 8 * (if i < j then i else i - 1))
              (fst (yielded (run s inputs ! t) ! j))) = replicate 8 (Num 0))"
  using assms
proof (induction inputs arbitrary: s t)
  case Nil
  then show ?case by simp
next
  case (Cons inp inputs)
  let ?r = "step s (fst inp) (snd inp)"
  note so = step_offline [OF Cons.prems(1) Cons.prems(2), where zones = "fst inp" and draws = "snd inp"]
  note sl = step_lengths [where s = s and zones = "fst inp" and draws = "snd inp"]
  show ?case
  proof (cases t)
    case 0
    have r: "run s (inp # inputs) ! t = ?r" unfolding 0 by (simp add: Let_def)
    show ?thesis unfolding r using so by blast
  next
    case (Suc t')
    have r: "run s (inp # inputs) ! t = run (final ?r) inputs ! t'"
      unfolding Suc by (simp add: Let_def)
    have a: "i < length (vehicles (final ?r))" using Cons.prems(1) sl by simp
    have b: "veh_offline (vehicles (final ?r) ! i)" using so(1) Cons.prems(2) by simp
    have c: "t' < length inputs" using Cons.prems(3) Suc by simp
    from Cons.IH [OF a b c] show ?thesis unfolding r using so(1) sl by simp
  qed
qed

text \<open>
  Claim C6. A vehicle whose offline flag is true when a call of \<^verbatim>\<open>Scenario.step\<close>
  begins keeps it on that tick and on every later tick of a run of steps, and its position
  never changes; whenever a step gets as far as yielding for it, the tuple is the zero
  vector of the full observation width, reward 0 and \<open>done = True\<close>, and a step that raises
  nothing does yield for it; and in every tuple yielded for another vehicle the eight
  places that belong to it hold zeros, not its position.
\<close>

theorem offline_forever:
  assumes i: "i < length (vehicles s)" and off: "veh_offline (vehicles s ! i)"
    and t: "t < length inputs"
  shows "veh_offline (vehicles (final (run s inputs ! t)) ! i) \<and>
         veh_position (vehicles (final (run s inputs ! t)) ! i) = veh_position (vehicles s ! i) \<and>
         (raised (run s inputs ! t) = None \<longrightarrow> i < length (yielded (run s inputs ! t))) \<and>
         (i < length (yielded (run s inputs ! t)) \<longrightarrow>
            yielded (run s inputs ! t) ! i =
              (replicate (4 + 8 * (length (vehicles s) - 1) + 4 * length (humans s)) (Num 0),
               0, True)) \<and>
         (\<forall>j < length (yielded (run s inputs ! t)). j \<noteq> i \<longrightarrow>
            take 8 (drop (4 + 8 * (if i < j then i else i - 1))
              (fst (yielded (run s inputs ! t) ! j))) = replicate 8 (Num 0))"
proof -
  note r = run_offline [OF i off t]
  have a: "vehicles (final (run s inputs ! t)) ! i = vehicles s ! i" using r by blast
  have b: "raised (run s inputs ! t) = None \<longrightarrow> i < length (yielded (run s inputs ! t))"
    using r i by simp
  show ?thesis unfolding a using off b r by blast
qed

lemma parked_phase1:
  "phase1 (vehicles parked_scenario) [demo_zone, demo_zone] no_draws 0 =
     ([demo_vehicle\<lparr>veh_offline := True\<rparr>,
       demo_vehicle\<lparr>veh_odometer := 7 / 200,
                   veh_position := vadd (Vector3 5 0 0) (Vector3 (7 / 200) 0 0),
                   veh_speed := 7 / 10\<rparr>],
      [0, 7 / 200], 1, None)"
  by (simp add: parked_scenario_def no_draws_def demo_move demo_vehicle_fields)

lemma parked_first:
  "run parked_scenario two_ticks ! 0 = step parked_scenario [demo_zone, demo_zone] no_draws"
  by (simp add: two_ticks_def Let_def)

lemma parked_raised: "raised (run parked_scenario two_ticks ! 0) = None"
  unfolding parked_first step_ok [OF parked_phase1] by simp

theorem offline_forever_witness:
  "0 < length (vehicles parked_scenario) \<and> veh_offline (vehicles parked_scenario ! 0) \<and>
   1 < length two_ticks \<and>
   veh_offline (vehicles (final (run parked_scenario two_ticks ! 1)) ! 0) \<and>
   veh_position (vehicles (final (run parked_scenario two_ticks ! 1)) ! 0) = Vector3 0 0 0 \<and>
   raised (run parked_scenario two_ticks ! 0) = None \<and>
   0 < length (yielded (run parked_scenario two_ticks ! 0)) \<and>
   yielded (run parked_scenario two_ticks ! 0) ! 0 = (replicate 16 (Num 0), 0, True) \<and>
   1 < length (yielded (run parked_scenario two_ticks ! 0)) \<and>
   take 8 (drop 4 (fst (yielded (run parked_scenario two_ticks ! 0) ! 1))) = replicate 8 (Num 0)"
proof -
  have i: "0 < length (vehicles parked_scenario)" by (simp add: parked_scenario_def)
  have off: "veh_offline (vehicles parked_scenario ! 0)" by (simp add: parked_scenario_def)
  have t0: "0 < length two_ticks" and t1: "1 < length two_ticks" by (simp_all add: two_ticks_def)
  have n: "length (vehicles parked_scenario) = 2" "length (humans parked_scenario) = 1"
    "veh_position (vehicles parked_scenario ! 0) = Vector3 0 0 0"
    by (simp_all add: parked_scenario_def demo_vehicle_fields)
  have l: "1 < length (yielded (run parked_scenario two_ticks ! 0))"
    unfolding parked_first step_ok [OF parked_phase1] by simp
  note a = offline_forever [OF i off t1] and b = offline_forever [OF i off t0]
  have a1: "veh_offline (vehicles (final (run parked_scenario two_ticks ! 1)) ! 0)"
    using a by blast
  have a2: "veh_position (vehicles (final (run parked_scenario two_ticks ! 1)) ! 0) =
      Vector3 0 0 0" using a n(3) by simp
  have b1: "0 < length (yielded (run parked_scenario two_ticks ! 0))"
    using b parked_raised by blast
  have b2: "yielded (run parked_scenario two_ticks ! 0) ! 0 = (replicate 16 (Num 0), 0, True)"
    using b b1 n by simp
  have b3: "take 8 (drop 4 (fst (yielded (run parked_scenario two_ticks ! 0) ! 1))) =
      replicate 8 (Num 0)"
    using b l by fastforce
  show ?thesis using i off t1 a1 a2 parked_raised b1 b2 l b3 by blast
qed

end
